theory Spec2Isabelle
  imports Main
begin

section \<open>Python strings\<close>

text \<open>
  A Python string is a \<^typ>\<open>string\<close>: a list of characters. A \<^typ>\<open>char\<close> is read as a code
  point below 256; in that range the regular-expression class \<^verbatim>\<open>\d\<close> is exactly
  \<^verbatim>\<open>[0-9]\<close>, and \<^verbatim>\<open>str.splitlines\<close> of Python 3 breaks lines at the eight characters
  of \<open>linebreak\<close> (and treats a carriage return followed by a line feed as one break).
\<close>

abbreviation LF :: char where "LF \<equiv> CHR 0x0A"
abbreviation CR :: char where "CR \<equiv> CHR 0x0D"

definition linebreak :: "char \<Rightarrow> bool" where
  "linebreak c =
     (c \<in> set [CHR 0x0A, CHR 0x0B, CHR 0x0C, CHR 0x0D, CHR 0x1C, CHR 0x1D, CHR 0x1E, CHR 0x85])"

text \<open>
  \<^verbatim>\<open>s.splitlines()\<close>: \<open>cur\<close> is the line being read. A line break ends the current line;
  text after the last line break is a line of its own unless it is empty.
\<close>

fun splitlines_from :: "string \<Rightarrow> string \<Rightarrow> string list" where
  "splitlines_from cur [] = (if cur = [] then [] else [cur])"
| "splitlines_from cur [c] =
     (if linebreak c then [cur] else [cur @ [c]])"
| "splitlines_from cur (c # d # cs) =
     (if c = CR \<and> d = LF then cur # splitlines_from [] cs
      else if linebreak c then cur # splitlines_from [] (d # cs)
      else splitlines_from (cur @ [c]) (d # cs))"

definition splitlines :: "string \<Rightarrow> string list" where
  "splitlines s = splitlines_from [] s"

text \<open>\<^verbatim>\<open>sep.join(xs)\<close>.\<close>

fun join :: "string \<Rightarrow> string list \<Rightarrow> string" where
  "join sep [] = []"
| "join sep [x] = x"
| "join sep (x # y # ys) = x @ sep @ join sep (y # ys)"

text \<open>\<^verbatim>\<open>s.replace(old, new)\<close> for one-character \<open>old\<close> and \<open>new\<close>.\<close>

definition replace_char :: "char \<Rightarrow> char \<Rightarrow> string \<Rightarrow> string" where
  "replace_char old new s = map (\<lambda>c. if c = old then new else c) s"

text \<open>\<^verbatim>\<open>s.startswith(p)\<close>.\<close>

definition startswith :: "string \<Rightarrow> string \<Rightarrow> bool" where
  "startswith s p = (take (length p) s = p)"




section \<open>Regular expressions\<close>

text \<open>
  The patterns of the program use literals, character classes, the anchors \<^verbatim>\<open>^\<close> and
  \<^verbatim>\<open>$\<close>, alternation, \<^verbatim>\<open>?\<close>, \<^verbatim>\<open>+\<close>, \<^verbatim>\<open>{n}\<close> and numbered groups. Python's \<^verbatim>\<open>re\<close>
  is a backtracking matcher: it explores the alternatives of a pattern in priority order
  (the left branch of \<^verbatim>\<open>|\<close> first, one more repetition before stopping) and reports the
  first complete match. \<open>rmatch\<close> lists all the ways a pattern matches at a position in
  that priority order, so its head is the match Python reports.

  A matcher state is the position reached, the text that remains from there, and the
  groups captured so far. \<^verbatim>\<open>^\<close> holds at position 0; \<^verbatim>\<open>$\<close> (no \<^verbatim>\<open>MULTILINE\<close> flag) holds at the
  end of the string and just before a line feed that ends the string.
\<close>

definition upper :: "char \<Rightarrow> bool" where
  "upper c = (c \<in> set ''ABCDEFGHIJKLMNOPQRSTUVWXYZ'')"

definition digit :: "char \<Rightarrow> bool" where
  "digit c = (c \<in> set ''0123456789'')"

definition hex_or_hyphen :: "char \<Rightarrow> bool" where
  "hex_or_hyphen c = (digit c \<or> c \<in> set ''abcdef-'')"

definition not_quote :: "char \<Rightarrow> bool" where
  "not_quote c = (\<not> c = CHR 0x22)"

datatype regex =
    Eps
  | Lit char
  | Cls "char \<Rightarrow> bool"
  | Bol
  | Eol
  | Seq regex regex
  | Alt regex regex
  | Opt regex
  | Plus regex
  | Rep nat regex
  | Grp nat regex

type_synonym groups = "nat \<rightharpoonup> string"
type_synonym mstate = "nat \<times> string \<times> groups"

text \<open>
  Greedy \<^verbatim>\<open>+\<close>: after one match of the body, first try to repeat, then stop. A repetition
  is tried only after the body has consumed text, and the fuel (one more than the length
  of the remaining text) is never exhausted before that stops.
\<close>

fun iterate_plus :: "nat \<Rightarrow> (mstate \<Rightarrow> mstate list) \<Rightarrow> mstate \<Rightarrow> mstate list" where
  "iterate_plus 0 step st = []"
| "iterate_plus (Suc fuel) step st =
     concat (map (\<lambda>st'. (if length (fst (snd st')) < length (fst (snd st))
                            then iterate_plus fuel step st' else []) @ [st'])
                 (step st))"

fun iterate_rep :: "nat \<Rightarrow> (mstate \<Rightarrow> mstate list) \<Rightarrow> mstate \<Rightarrow> mstate list" where
  "iterate_rep 0 step st = [st]"
| "iterate_rep (Suc n) step st = concat (map (iterate_rep n step) (step st))"

primrec rmatch :: "regex \<Rightarrow> mstate \<Rightarrow> mstate list" where
  "rmatch Eps st = [st]"
| "rmatch (Lit c) st =
     (case st of (p, rest, g) \<Rightarrow>
        (case rest of [] \<Rightarrow> [] | x # xs \<Rightarrow> if x = c then [(Suc p, xs, g)] else []))"
| "rmatch (Cls P) st =
     (case st of (p, rest, g) \<Rightarrow>
        (case rest of [] \<Rightarrow> [] | x # xs \<Rightarrow> if P x then [(Suc p, xs, g)] else []))"
| "rmatch Bol st = (case st of (p, rest, g) \<Rightarrow> if p = 0 then [st] else [])"
| "rmatch Eol st =
     (case st of (p, rest, g) \<Rightarrow> if rest = [] \<or> rest = [LF] then [st] else [])"
| "rmatch (Seq a b) st = concat (map (rmatch b) (rmatch a st))"
| "rmatch (Alt a b) st = rmatch a st @ rmatch b st"
| "rmatch (Opt a) st = rmatch a st @ [st]"
| "rmatch (Plus a) st = iterate_plus (Suc (length (fst (snd st)))) (rmatch a) st"
| "rmatch (Rep n a) st = iterate_rep n (rmatch a) st"
| "rmatch (Grp n a) st =
     (case st of (p, rest, g) \<Rightarrow>
        map (\<lambda>(q, rest', h). (q, rest', h(n \<mapsto> take (q - p) rest))) (rmatch a st))"

text \<open>
  \<^verbatim>\<open>re.search\<close>: the start positions are tried from left to right, the end of the string
  included. The result is the start position and the final state of the first match.
\<close>

fun search_from :: "regex \<Rightarrow> nat \<Rightarrow> string \<Rightarrow> (nat \<times> mstate) option" where
  "search_from r p [] =
     (case rmatch r (p, [], Map.empty) of [] \<Rightarrow> None | m # _ \<Rightarrow> Some (p, m))"
| "search_from r p (c # cs) =
     (case rmatch r (p, c # cs, Map.empty) of
        [] \<Rightarrow> search_from r (Suc p) cs
      | m # _ \<Rightarrow> Some (p, m))"

definition re_search :: "regex \<Rightarrow> string \<Rightarrow> groups option" where
  "re_search r s = map_option (\<lambda>(start, q, rest, g). g) (search_from r 0 s)"

text \<open>
  \<^verbatim>\<open>re.split\<close> for a pattern without groups: the text before each match, left to right,
  the search resuming where the match ended, and the text after the last match. The
  pattern split on here never matches the empty string; a match that consumes nothing
  ends the splitting.
\<close>

function split_from :: "regex \<Rightarrow> nat \<Rightarrow> string \<Rightarrow> string list" where
  "split_from r p rest =
     (case search_from r p rest of
        None \<Rightarrow> [rest]
      | Some (start, q, rest', g) \<Rightarrow>
          if length rest' < length rest
          then take (start - p) rest # split_from r q rest'
          else [rest])"
  by pat_completeness auto
termination
  by (relation "measure (\<lambda>(r, p, rest). length rest)") auto

declare split_from.simps [simp del]

definition re_split :: "regex \<Rightarrow> string \<Rightarrow> string list" where
  "re_split r s = split_from r 0 s"

text \<open>A run of literal characters.\<close>

primrec lits :: "string \<Rightarrow> regex" where
  "lits [] = Eps"
| "lits (c # cs) = Seq (Lit c) (lits cs)"

text \<open>The five patterns of the program.\<close>

text \<open>\<^verbatim>\<open>'\r?\n\r?\n'\<close>\<close>

definition blank_re :: regex where
  "blank_re = Seq (Opt (Lit CR)) (Seq (Lit LF) (Seq (Opt (Lit CR)) (Lit LF)))"

text \<open>\<^verbatim>\<open>"(^|/)([A-Z]{4}\d{8})($|/)"\<close>\<close>

definition direct_re :: regex where
  "direct_re =
     Seq (Grp 1 (Alt Bol (Lit CHR ''/'')))
    (Seq (Grp 2 (Seq (Rep 4 (Cls upper)) (Rep 8 (Cls digit))))
         (Grp 3 (Alt Eol (Lit CHR ''/''))))"

text \<open>\<^verbatim>\<open>"(^|/)PS\*([\da-f-]+)($|/)"\<close>\<close>

definition star_re :: regex where
  "star_re =
     Seq (Grp 1 (Alt Bol (Lit CHR ''/'')))
    (Seq (lits ''PS*'')
    (Seq (Grp 2 (Plus (Cls hex_or_hyphen)))
         (Grp 3 (Alt Eol (Lit CHR ''/'')))))"

text \<open>\<^verbatim>\<open>"(^|mediaId=)([0-9]+)($|&)"\<close>\<close>

definition media_re :: regex where
  "media_re =
     Seq (Grp 1 (Alt Bol (lits ''mediaId='')))
    (Seq (Grp 2 (Plus (Cls digit)))
         (Grp 3 (Alt Eol (Lit CHR ''&''))))"

text \<open>\<^verbatim>\<open>'URI="([^"]+)"'\<close>\<close>

definition uri_re :: regex where
  "uri_re =
     Seq (lits (''URI='' @ [CHR 0x22]))
    (Seq (Grp 1 (Plus (Cls not_quote)))
         (Lit (CHR 0x22)))"

section \<open>Exceptions\<close>

datatype exn =
    NameError string
  | UnboundLocalError string
  | AttributeError string
  | IndexError
  | KeyError string
  | TypeError
  | ValueError

section \<open>The subtitle converter\<close>

text \<open>
  \<^verbatim>\<open>nrk_vtt_to_srt\<close>. The loop over \<^verbatim>\<open>vtt_cues\<close> carries the list \<^verbatim>\<open>srt_cues\<close>;
  \<^verbatim>\<open>cue_lines[1]\<close> raises \<^verbatim>\<open>IndexError\<close> when the cue has fewer than two lines.
\<close>

fun convert_cues :: "string list \<Rightarrow> string list \<Rightarrow> exn + string list" where
  "convert_cues [] srt_cues = Inr srt_cues"
| "convert_cues (cue # vtt_cues) srt_cues =
     (let cue_lines = splitlines cue in
      if 1 < length cue_lines
      then convert_cues vtt_cues
             (srt_cues @
              [join [LF] (cue_lines[1 := replace_char CHR ''.'' CHR '','' (cue_lines ! 1)])])
      else Inl IndexError)"

definition nrk_vtt_to_srt :: "string \<Rightarrow> exn + string" where
  "nrk_vtt_to_srt vtt =
     (case convert_cues (tl (re_split blank_re vtt)) [] of
        Inl e \<Rightarrow> Inl e
      | Inr srt_cues \<Rightarrow> Inr (join [LF, LF] srt_cues))"


section \<open>Python values\<close>

text \<open>
  The values that \<^verbatim>\<open>json.loads\<close> produces and the program passes around: \<^verbatim>\<open>None\<close>,
  booleans, integers, strings, lists and dictionaries with string keys. A dictionary is
  the list of its items. (JSON numbers with a fraction are not represented; the program
  reads no numeric field.)
\<close>

datatype pyval =
    PNone
  | PBool bool
  | PInt int
  | PStr string
  | PList "pyval list"
  | PDict "(string \<times> pyval) list"

text \<open>Truth value testing, as \<^verbatim>\<open>if x\<close>, \<^verbatim>\<open>not x\<close> and \<^verbatim>\<open>x or y\<close> use it.\<close>

fun truthy :: "pyval \<Rightarrow> bool" where
  "truthy PNone = False"
| "truthy (PBool b) = b"
| "truthy (PInt i) = (\<not> i = 0)"
| "truthy (PStr s) = (\<not> s = [])"
| "truthy (PList xs) = (\<not> xs = [])"
| "truthy (PDict kvs) = (\<not> kvs = [])"

definition py_or :: "pyval \<Rightarrow> pyval \<Rightarrow> pyval" where
  "py_or a b = (if truthy a then a else b)"

text \<open>\<^verbatim>\<open>d.get(key, default)\<close>: only a dictionary has the method.\<close>

fun dict_get :: "pyval \<Rightarrow> string \<Rightarrow> pyval \<Rightarrow> exn + pyval" where
  "dict_get (PDict kvs) key dflt = Inr (case map_of kvs key of Some v \<Rightarrow> v | None \<Rightarrow> dflt)"
| "dict_get v key dflt = Inl (AttributeError ''get'')"

text \<open>\<^verbatim>\<open>key in x\<close> for a string \<open>key\<close>: a key of a dictionary, an element of a list, a
  substring of a string; the other values are not iterable.\<close>

definition is_substring :: "string \<Rightarrow> string \<Rightarrow> bool" where
  "is_substring k s = list_ex (\<lambda>i. startswith (drop i s) k) [0..<Suc (length s)]"


text \<open>\<^verbatim>\<open>m.group(n)\<close>: the text of group \<open>n\<close>, \<^verbatim>\<open>None\<close> when the group took no part.\<close>

definition group :: "groups \<Rightarrow> nat \<Rightarrow> pyval" where
  "group g n = (case g n of Some t \<Rightarrow> PStr t | None \<Rightarrow> PNone)"

section \<open>Parsed HTML\<close>

text \<open>
  What \<^verbatim>\<open>BeautifulSoup(text, 'lxml')\<close> returns is a tree of tags (name, attributes,
  children) and strings. \<^verbatim>\<open>soup.find(...)\<close>, \<^verbatim>\<open>soup.figure\<close> and \<^verbatim>\<open>soup.script\<close> return the
  first tag in document order that fits, or \<^verbatim>\<open>None\<close>; a tag is always true in a
  condition. The parser itself is a parameter of the environment.
\<close>

datatype node =
    Tag string "(string \<times> string) list" "node list"
  | Text string

fun descendants :: "node \<Rightarrow> node list" where
  "descendants (Text t) = [Text t]"
| "descendants (Tag name attrs children) =
     Tag name attrs children # concat (map descendants children)"

definition document_order :: "node list \<Rightarrow> node list" where
  "document_order soup = concat (map descendants soup)"

fun is_tag :: "string \<Rightarrow> node \<Rightarrow> bool" where
  "is_tag name (Tag name' attrs children) = (name' = name)"
| "is_tag name (Text t) = False"

text \<open>\<^verbatim>\<open>tag.get(key)\<close>: the attribute's value or \<^verbatim>\<open>None\<close>.\<close>

fun tag_get :: "node \<Rightarrow> string \<Rightarrow> pyval" where
  "tag_get (Tag name attrs children) key =
     (case map_of attrs key of Some v \<Rightarrow> PStr v | None \<Rightarrow> PNone)"
| "tag_get (Text t) key = PNone"

text \<open>\<^verbatim>\<open>tag.get_text()\<close>: the strings inside the tag, concatenated.\<close>

fun node_text :: "node \<Rightarrow> string" where
  "node_text (Text t) = t"
| "node_text (Tag name attrs children) = []"

definition get_text :: "node \<Rightarrow> string" where
  "get_text n = concat (map node_text (descendants n))"

text \<open>\<^verbatim>\<open>soup.find('section', {'id': 'program-info'})\<close>\<close>

definition find_program_info :: "node list \<Rightarrow> node option" where
  "find_program_info soup =
     find (\<lambda>n. is_tag ''section'' n \<and> tag_get n ''id'' = PStr ''program-info'')
          (document_order soup)"

text \<open>\<^verbatim>\<open>soup.figure\<close> and \<^verbatim>\<open>soup.script\<close>\<close>

definition first_tag :: "string \<Rightarrow> node list \<Rightarrow> node option" where
  "first_tag name soup = find (is_tag name) (document_order soup)"

section \<open>The world and the environment\<close>

text \<open>
  The state a run changes: what was printed (one entry for each \<^verbatim>\<open>print\<close>), the URLs
  \<^verbatim>\<open>requests.get\<close> was called with, in order, and the files of the working directory
  (name and content, the newest first).
\<close>

record world =
  stdout :: "string list"
  get_calls :: "string list"
  files :: "(string \<times> string) list"

text \<open>
  A response of \<^verbatim>\<open>requests\<close>: it is true in a condition when its status is below 400
  (\<open>resp_ok\<close>); \<open>resp_text\<close> is its \<^verbatim>\<open>.text\<close>, and \<open>resp_json\<close> what \<^verbatim>\<open>.json()\<close> returns,
  \<open>None\<close> when that call raises \<^verbatim>\<open>ValueError\<close>.
\<close>

record response =
  resp_ok :: bool
  resp_text :: string
  resp_json :: "pyval option"

text \<open>
  What a call of \<^verbatim>\<open>requests.get\<close> does: it returns a response, raises
  \<^verbatim>\<open>MissingSchema\<close> (the URL has no scheme), or raises another
  \<^verbatim>\<open>RequestException\<close>; the string is the exception's message.
\<close>

datatype get_outcome =
    Returns response
  | RaisesMissingSchema string
  | RaisesRequestException string

type_synonym headers = "(string \<times> string) list option"
type_synonym 'a io = "world \<Rightarrow> (exn + 'a) \<times> world"

text \<open>
  The collaborators outside the program: the network behind \<^verbatim>\<open>requests.get\<close>, whose
  answer may depend on the world at the time of the call; the HTML parser;
  \<^verbatim>\<open>json.loads\<close> (\<open>None\<close> when it raises \<^verbatim>\<open>ValueError\<close>); \<^verbatim>\<open>requests.compat.urljoin\<close>;
  \<^verbatim>\<open>str\<close> of a value that is not a string; and the segment downloader
  \<^verbatim>\<open>hls.dump(url, filename, progress)\<close> of \<^verbatim>\<open>libs\<close>, which may print, write files and
  raise. Every property below holds for all of them.
\<close>

record env =
  requests_get :: "world \<Rightarrow> string \<Rightarrow> headers \<Rightarrow> get_outcome"
  BeautifulSoup :: "string \<Rightarrow> node list"
  json_loads :: "string \<Rightarrow> pyval option"
  urljoin :: "string \<Rightarrow> string \<Rightarrow> string"
  str_of :: "pyval \<Rightarrow> string"
  hls_dump :: "pyval \<Rightarrow> string \<Rightarrow> world \<Rightarrow> (exn + unit) \<times> world"

section \<open>Effects\<close>

definition io_return :: "'a \<Rightarrow> 'a io" where
  "io_return x w = (Inr x, w)"

definition io_raise :: "exn \<Rightarrow> 'a io" where
  "io_raise e w = (Inl e, w)"

text \<open>Sequencing: an exception ends the computation, the world keeps what was done.\<close>

definition io_bind :: "'a io \<Rightarrow> ('a \<Rightarrow> 'b io) \<Rightarrow> 'b io" where
  "io_bind m f w = (case m w of (Inl e, w') \<Rightarrow> (Inl e, w') | (Inr x, w') \<Rightarrow> f x w')"

definition py_print :: "string \<Rightarrow> unit io" where
  "py_print s w = (Inr (), w\<lparr>stdout := stdout w @ [s]\<rparr>)"



text \<open>\<^verbatim>\<open>'...{}...'.format(x)\<close>: a string as it is, another value through \<^verbatim>\<open>str\<close>.\<close>

definition py_format :: "env \<Rightarrow> pyval \<Rightarrow> string" where
  "py_format env v = (case v of PStr s \<Rightarrow> s | _ \<Rightarrow> str_of env v)"

section \<open>The program\<close>




definition MIMIR_BASE_URL :: "string \<Rightarrow> string" where
  "MIMIR_BASE_URL x = ''https://mimir.nrk.no/plugin/1.0/static?mediaId='' @ x"

definition error :: "string \<Rightarrow> unit io" where
  "error message = py_print (''Error: '' @ message)"

text \<open>
  \<^verbatim>\<open>get_req\<close>. The handler of \<^verbatim>\<open>MissingSchema\<close> calls
  \<^verbatim>\<open>get_req("https://{}".format(url), session)\<close>; the name \<^verbatim>\<open>session\<close> is bound nowhere in
  the module, so evaluating the arguments raises \<^verbatim>\<open>NameError\<close> before the call is made.
\<close>

definition get_req :: "env \<Rightarrow> string \<Rightarrow> headers \<Rightarrow> response option io" where
  "get_req env url hdrs w =
     (let w1 = w\<lparr>get_calls := get_calls w @ [url]\<rparr> in
      case requests_get env w url hdrs of
        Returns req \<Rightarrow> io_return (Some req) w1
      | RaisesMissingSchema msg \<Rightarrow> io_raise (NameError ''session'') w1
      | RaisesRequestException msg \<Rightarrow> io_bind (error msg) (\<lambda>_. io_return None) w1)"






text \<open>
  \<^verbatim>\<open>get_vtt_file_url\<close>. The first loop leaves \<^verbatim>\<open>sub_stream_line\<close> unbound when no line starts
  with the marker. The second loop reads \<^verbatim>\<open>line[0]\<close>, which raises \<^verbatim>\<open>IndexError\<close> on an
  empty line, and leaves \<^verbatim>\<open>sub_filename\<close> unbound when every line starts with \<^verbatim>\<open>#\<close>.
  (Group 1 takes part in every match of the URI pattern, so the branch for a group that
  is \<^verbatim>\<open>None\<close> is never taken; it completes the case distinction.)
\<close>

fun first_locator :: "string list \<Rightarrow> exn + string option" where
  "first_locator [] = Inr None"
| "first_locator (line # lines) =
     (case line of
        [] \<Rightarrow> Inl IndexError
      | c # _ \<Rightarrow> if \<not> c = CHR ''#'' then Inr (Some line) else first_locator lines)"

definition get_vtt_file_url :: "env \<Rightarrow> string \<Rightarrow> string io" where
  "get_vtt_file_url env media_url =
     io_bind (get_req env media_url None) (\<lambda>main_manifest_req.
       case main_manifest_req of
         None \<Rightarrow> io_raise (AttributeError ''text'')
       | Some r1 \<Rightarrow>
          (case find (\<lambda>line. startswith line ''#EXT-X-MEDIA:TYPE=SUBTITLES'')
                     (splitlines (resp_text r1)) of
             None \<Rightarrow> io_raise (UnboundLocalError ''sub_stream_line'')
           | Some sub_stream_line \<Rightarrow>
              (case re_search uri_re sub_stream_line of
                 None \<Rightarrow> io_raise (AttributeError ''group'')
               | Some m \<Rightarrow>
                  (case m 1 of
                     None \<Rightarrow> io_raise TypeError
                   | Some sub_manifest_url \<Rightarrow>
                      io_bind (get_req env sub_manifest_url None) (\<lambda>sub_manifest_req.
                        case sub_manifest_req of
                          None \<Rightarrow> io_raise (AttributeError ''text'')
                        | Some r2 \<Rightarrow>
                           (case first_locator (splitlines (resp_text r2)) of
                              Inl e \<Rightarrow> io_raise e
                            | Inr None \<Rightarrow> io_raise (UnboundLocalError ''sub_filename'')
                            | Inr (Some sub_filename) \<Rightarrow>
                                io_return (urljoin env sub_manifest_url sub_filename)))))))"





text \<open>
  \<^verbatim>\<open>get_program_id_from_html\<close>. \<^verbatim>\<open>not req\<close> holds for \<^verbatim>\<open>None\<close> and for a response whose
  status is an error.
\<close>

definition get_program_id_from_html :: "env \<Rightarrow> string \<Rightarrow> pyval io" where
  "get_program_id_from_html env url =
     io_bind (get_req env url None) (\<lambda>req.
       case req of
         None \<Rightarrow> io_return PNone
       | Some r \<Rightarrow>
          if \<not> resp_ok r then io_return PNone
          else (let soup = BeautifulSoup env (resp_text r);
                    id_element = (case find_program_info soup of
                                    Some e \<Rightarrow> Some e
                                  | None \<Rightarrow> first_tag ''figure'' soup)
                in case id_element of
                     None \<Rightarrow> io_return PNone
                   | Some e \<Rightarrow>
                       io_return (py_or (tag_get e ''data-ga-from-id'')
                                        (tag_get e ''data-video-id''))))"

text \<open>
  \<^verbatim>\<open>get_program_id_from_media_id\<close>. \<^verbatim>\<open>soup.script\<close> is \<^verbatim>\<open>None\<close> when the page has no
  script element, and \<^verbatim>\<open>None.get_text()\<close> raises \<^verbatim>\<open>AttributeError\<close>.
\<close>

definition get_program_id_from_media_id :: "env \<Rightarrow> pyval \<Rightarrow> pyval io" where
  "get_program_id_from_media_id env media_id =
     io_bind (get_req env (MIMIR_BASE_URL (py_format env media_id)) None) (\<lambda>req.
       case req of
         None \<Rightarrow> io_return PNone
       | Some r \<Rightarrow>
          if \<not> resp_ok r then io_return PNone
          else (case first_tag ''script'' (BeautifulSoup env (resp_text r)) of
                  None \<Rightarrow> io_raise (AttributeError ''get_text'')
                | Some script \<Rightarrow>
                   (case json_loads env (get_text script) of
                      None \<Rightarrow> io_raise ValueError
                    | Some json_info \<Rightarrow>
                       (case dict_get json_info ''activeMedia'' (PDict []) of
                          Inl e \<Rightarrow> io_raise e
                        | Inr active_media \<Rightarrow>
                           (case dict_get active_media ''psId'' PNone of
                              Inl e \<Rightarrow> io_raise e
                            | Inr program_id \<Rightarrow> io_return program_id)))))"

text \<open>
  \<^verbatim>\<open>get_program_id\<close>. A match object is always true in a condition, so
  \<^verbatim>\<open>re.search(...) or re.search(...)\<close> is the first match if there is one, else the second.
\<close>

definition get_program_id :: "env \<Rightarrow> string \<Rightarrow> pyval io" where
  "get_program_id env passed_string =
     (let program_id_match =
            (case re_search direct_re passed_string of
               Some m \<Rightarrow> Some m
             | None \<Rightarrow> re_search star_re passed_string)
      in case program_id_match of
           Some m \<Rightarrow> io_return (group m 2)
         | None \<Rightarrow>
            (case re_search media_re passed_string of
               Some media_id_match \<Rightarrow> get_program_id_from_media_id env (group media_id_match 2)
             | None \<Rightarrow> get_program_id_from_html env passed_string))"






section \<open>The converter in the words of the specification\<close>

text \<open>
  A blank line is two line endings in a row, each a line feed or a carriage return and a
  line feed. \<open>blank_line_at s\<close> is the length of the blank-line delimiter that \<open>s\<close> starts
  with, if there is one.
\<close>

definition blank_line_at :: "string \<Rightarrow> nat option" where
  "blank_line_at s =
     (if startswith s [CR, LF, CR, LF] then Some 4
      else if startswith s [CR, LF, LF] then Some 3
      else if startswith s [LF, CR, LF] then Some 3
      else if startswith s [LF, LF] then Some 2
      else None)"

text \<open>The blocks of a text: what stands between its blank lines, read left to right.\<close>

function spec_blocks_from :: "string \<Rightarrow> string \<Rightarrow> string list" where
  "spec_blocks_from cur s =
     (case s of
        [] \<Rightarrow> [cur]
      | c # cs \<Rightarrow>
          (case blank_line_at s of
             Some n \<Rightarrow> cur # spec_blocks_from [] (drop n s)
           | None \<Rightarrow> spec_blocks_from (cur @ [c]) cs))"
  by pat_completeness auto
termination
  by (relation "measure (\<lambda>(cur, s). length s)")
     (auto simp: blank_line_at_def split: if_splits)

declare spec_blocks_from.simps [simp del]

definition spec_blocks :: "string \<Rightarrow> string list" where
  "spec_blocks s = spec_blocks_from [] s"

text \<open>
  A converted block: its lines, the one at index 1 with every full stop replaced by a
  comma and all others as they are, joined by line feeds.
\<close>

definition spec_cue :: "string \<Rightarrow> string" where
  "spec_cue block =
     join [LF] (map (\<lambda>(i, line). if i = 1 then replace_char CHR ''.'' CHR '','' line else line)
                    (enumerate 0 (splitlines block)))"

text \<open>The blocks after the first, converted and joined with a blank line between them.\<close>

definition spec_vtt_to_srt :: "string \<Rightarrow> string" where
  "spec_vtt_to_srt vtt = join [LF, LF] (map spec_cue (tl (spec_blocks vtt)))"

section \<open>Tokens of a reference in the words of the specification\<close>

text \<open>
  A token is delimited on the left by the start of the string or a slash, and on the right
  by the end of the string or a slash. \<open>n\<close> is the offset where the token starts, \<open>m\<close> the
  offset just after it.
\<close>

definition left_delim :: "string \<Rightarrow> nat \<Rightarrow> bool" where
  "left_delim s n = (n = 0 \<or> s ! (n - 1) = CHR ''/'')"

definition right_delim :: "string \<Rightarrow> nat \<Rightarrow> bool" where
  "right_delim s m = (m = length s \<or> (m < length s \<and> s ! m = CHR ''/''))"

text \<open>Four uppercase letters and eight digits stand at offset \<open>n\<close>.\<close>

definition token_at :: "string \<Rightarrow> nat \<Rightarrow> bool" where
  "token_at s n = (n + 12 \<le> length s \<and> list_all upper (take 4 (drop n s))
                    \<and> list_all digit (take 8 (drop (n + 4) s)))"

text \<open>A delimited token of the direct shape starts at offset \<open>n\<close>.\<close>

definition direct_at :: "string \<Rightarrow> nat \<Rightarrow> bool" where
  "direct_at s n = (token_at s n \<and> left_delim s n \<and> right_delim s (n + 12))"

text \<open>
  The hexadecimal-or-hyphen characters that follow a \<^verbatim>\<open>PS*\<close> at offset \<open>n\<close>, and a delimited
  token of the star shape at offset \<open>n\<close>: \<^verbatim>\<open>PS*\<close>, then at least one such character.
\<close>

definition star_run :: "string \<Rightarrow> nat \<Rightarrow> string" where
  "star_run s n = takeWhile hex_or_hyphen (drop (n + 3) s)"

definition star_at :: "string \<Rightarrow> nat \<Rightarrow> bool" where
  "star_at s n = (left_delim s n \<and> take 3 (drop n s) = ''PS*'' \<and> \<not> star_run s n = []
                   \<and> right_delim s (n + 3 + length (star_run s n)))"

text \<open>
  The same with the right delimiter as \<^verbatim>\<open>$\<close> reads it: also just before a line feed that
  ends the string. These are the offsets where the two patterns of the program match.
\<close>

definition right_delim_re :: "string \<Rightarrow> nat \<Rightarrow> bool" where
  "right_delim_re s m = (right_delim s m \<or> (Suc m = length s \<and> s ! m = LF))"

definition direct_match_at :: "string \<Rightarrow> nat \<Rightarrow> bool" where
  "direct_match_at s n = (token_at s n \<and> left_delim s n \<and> right_delim_re s (n + 12))"

definition star_match_at :: "string \<Rightarrow> nat \<Rightarrow> bool" where
  "star_match_at s n = (left_delim s n \<and> take 3 (drop n s) = ''PS*'' \<and> \<not> star_run s n = []
                   \<and> right_delim_re s (n + 3 + length (star_run s n)))"

text \<open>
  For the proofs: what the token part and the right delimiter of each pattern accept at
  the head of a text, and group 2 of the first match of a pattern at a position.
\<close>

definition tok_here :: "string \<Rightarrow> bool" where
  "tok_here rest =
     (12 \<le> length rest \<and> list_all upper (take 4 rest) \<and> list_all digit (take 8 (drop 4 rest))
      \<and> (drop 12 rest = [] \<or> drop 12 rest = [LF] \<or> hd (drop 12 rest) = CHR ''/''))"

definition star_here :: "string \<Rightarrow> bool" where
  "star_here rest =
     (startswith rest ''PS*'' \<and> \<not> takeWhile hex_or_hyphen (drop 3 rest) = []
      \<and> (dropWhile hex_or_hyphen (drop 3 rest) = []
         \<or> dropWhile hex_or_hyphen (drop 3 rest) = [LF]
         \<or> hd (dropWhile hex_or_hyphen (drop 3 rest)) = CHR ''/''))"

definition first_group2 :: "regex \<Rightarrow> nat \<Rightarrow> string \<Rightarrow> string option option" where
  "first_group2 r p rest =
     (case rmatch r (p, rest, Map.empty) of [] \<Rightarrow> None | (q, rest', g) # _ \<Rightarrow> Some (g 2))"

section \<open>Sample inputs\<close>

text \<open>The world before a run.\<close>

definition w0 :: world where
  "w0 = \<lparr>stdout = [], get_calls = [], files = []\<rparr>"

text \<open>
  A machine without network: \<^verbatim>\<open>requests.get\<close> raises \<^verbatim>\<open>MissingSchema\<close> for a URL without
  \<^verbatim>\<open>://\<close> and \<^verbatim>\<open>ConnectionError\<close>, a \<^verbatim>\<open>RequestException\<close>, for every other.
\<close>

definition offline :: env where
  "offline =
     \<lparr>requests_get = (\<lambda>w url hdrs. if is_substring ''://'' url
                                     then RaisesRequestException ''Connection refused''
                                     else RaisesMissingSchema ''No scheme supplied''),
      BeautifulSoup = (\<lambda>t. []),
      json_loads = (\<lambda>t. None),
      urljoin = (\<lambda>base url. url),
      str_of = (\<lambda>v. ''''),
      hls_dump = (\<lambda>url filename w. (Inr (), w))\<rparr>"

text \<open>
  A lookup page without a script element: every request is answered with the same small
  page.
\<close>

definition lookup_without_script :: env where
  "lookup_without_script =
     offline\<lparr>requests_get := (\<lambda>w url hdrs.
                 Returns \<lparr>resp_ok = True,
                          resp_text = ''<html><body><p>Not found</p></body></html>'',
                          resp_json = None\<rparr>),
              BeautifulSoup := (\<lambda>t.
                 [Tag ''html'' [] [Tag ''body'' [] [Tag ''p'' [] [Text ''Not found'']]]])\<rparr>"

text \<open>
  A stream whose subtitle sub-manifest has an empty line before its first locator. The
  resolution of a relative locator puts it in place of the last path segment of the base.
\<close>

definition master_m3u8 :: string where
  "master_m3u8 =
     ''#EXTM3U'' @ [LF] @
     ''#EXT-X-MEDIA:TYPE=SUBTITLES,GROUP-ID='' @ [CHR 0x22] @ ''subs'' @ [CHR 0x22] @
     '',URI='' @ [CHR 0x22] @ ''https://host/path/sub.m3u8'' @ [CHR 0x22] @ [LF] @
     ''#EXT-X-STREAM-INF:BANDWIDTH=1000000'' @ [LF] @ ''video.m3u8'' @ [LF]"

definition sub_m3u8_blank :: string where
  "sub_m3u8_blank = ''#EXTM3U'' @ [LF] @ [LF] @ ''seg.vtt'' @ [LF]"

definition sub_m3u8 :: string where
  "sub_m3u8 = ''#EXTM3U'' @ [LF] @ ''#EXT-X-TARGETDURATION:10'' @ [LF] @ ''seg.vtt'' @ [LF]"

definition manifests :: "string \<Rightarrow> env" where
  "manifests sub =
     offline\<lparr>requests_get := (\<lambda>w url hdrs.
                 if url = ''https://host/path/master.m3u8''
                 then Returns \<lparr>resp_ok = True, resp_text = master_m3u8, resp_json = None\<rparr>
                 else if url = ''https://host/path/sub.m3u8''
                 then Returns \<lparr>resp_ok = True, resp_text = sub, resp_json = None\<rparr>
                 else RaisesRequestException ''Connection refused''),
              urljoin := (\<lambda>base url.
                 rev (dropWhile (\<lambda>c. \<not> c = CHR ''/'') (rev base)) @ url)\<rparr>"





text \<open>References with a token in a path.\<close>

definition direct_ref :: string where
  "direct_ref = ''https://tv.nrk.no/serie/x/ABCD12345678/sesong/1''"

definition star_ref :: string where
  "star_ref = ''https://radio.nrk.no/podkast/x/PS*1a2b-3c''"


text \<open>The conversion example of the specification.\<close>

definition example_vtt :: string where
  "example_vtt =
     ''WEBVTT'' @ [LF, LF] @ ''1'' @ [LF] @ ''00:00:01.000 --> 00:00:02.000'' @ [LF] @ ''Hello''"

definition example_srt :: string where
  "example_srt = ''1'' @ [LF] @ ''00:00:01,000 --> 00:00:02,000'' @ [LF] @ ''Hello''"

text \<open>Two cues with carriage returns before the line feeds, and full stops in the text.\<close>

definition crlf_vtt :: string where
  "crlf_vtt =
     ''WEBVTT'' @ [CR, LF, CR, LF] @
     ''1'' @ [CR, LF] @ ''00:00:01.000 --> 00:00:02.500'' @ [CR, LF] @ ''Hi. You.'' @ [CR, LF, CR, LF] @
     ''2'' @ [CR, LF] @ ''00:00:03.000 --> 00:00:04.000'' @ [CR, LF] @ ''Bye''"

definition crlf_srt :: string where
  "crlf_srt =
     ''1'' @ [LF] @ ''00:00:01,000 --> 00:00:02,500'' @ [LF] @ ''Hi. You.'' @ [LF, LF] @
     ''2'' @ [LF] @ ''00:00:03,000 --> 00:00:04,000'' @ [LF] @ ''Bye''"

section \<open>Properties of the subtitle converter\<close>

subsection \<open>Splitting on the blank-line pattern\<close>

lemma startswith_length: "startswith s p \<Longrightarrow> length p \<le> length s"
  unfolding startswith_def by (metis length_take min.cobounded1)

lemma blank_line_at_pos: "blank_line_at s = Some n \<Longrightarrow> 0 < n \<and> n \<le> length s"
  by (auto simp: blank_line_at_def split: if_splits dest: startswith_length)

lemma blank_line_at_Nil [simp]: "blank_line_at [] = None"
  by (simp add: blank_line_at_def startswith_def)

text \<open>The pattern matches at a position exactly when a blank-line delimiter starts there,
  in one way, and consumes the delimiter.\<close>

lemma rmatch_blank_re:
  "rmatch blank_re (p, rest, g) =
     (case blank_line_at rest of Some n \<Rightarrow> [(p + n, drop n rest, g)] | None \<Rightarrow> [])"
  by (auto simp: blank_re_def blank_line_at_def startswith_def split: list.splits)

lemma search_blank_None:
  "search_from blank_re p rest = None \<Longrightarrow> spec_blocks_from cur rest = [cur @ rest]"
proof (induction rest arbitrary: p cur)
  case Nil
  then show ?case by (subst spec_blocks_from.simps) simp
next
  case (Cons c cs)
  from Cons.prems have b: "blank_line_at (c # cs) = None"
    by (simp add: rmatch_blank_re split: option.splits)
  with Cons.prems have "search_from blank_re (Suc p) cs = None"
    by (simp add: rmatch_blank_re)
  from Cons.IH[OF this, of "cur @ [c]"] b show ?case
    by (subst spec_blocks_from.simps) simp
qed

lemma search_blank_Some:
  "search_from blank_re p rest = Some (start, q, rest', g) \<Longrightarrow>
     spec_blocks_from cur rest = (cur @ take (start - p) rest) # spec_blocks_from [] rest'
     \<and> length rest' < length rest \<and> p \<le> start"
proof (induction rest arbitrary: p cur)
  case Nil
  then show ?case by (simp add: rmatch_blank_re)
next
  case (Cons c cs)
  show ?case
  proof (cases "blank_line_at (c # cs)")
    case None
    with Cons.prems have s: "search_from blank_re (Suc p) cs = Some (start, q, rest', g)"
      by (simp add: rmatch_blank_re)
    from Cons.IH[OF s, of "cur @ [c]"] have le: "Suc p \<le> start" by simp
    then have "start - p = Suc (start - Suc p)" by simp
    with Cons.IH[OF s, of "cur @ [c]"] None show ?thesis
      by (subst spec_blocks_from.simps) simp
  next
    case (Some n)
    with Cons.prems have "start = p" "rest' = drop n (c # cs)"
      by (simp_all add: rmatch_blank_re)
    with Some blank_line_at_pos[OF Some] show ?thesis
      by (subst spec_blocks_from.simps) simp
  qed
qed

lemma split_from_blank: "split_from blank_re p rest = spec_blocks_from [] rest"
proof (induction "length rest" arbitrary: p rest rule: less_induct)
  case less
  show ?case
  proof (cases "search_from blank_re p rest")
    case None
    from search_blank_None[OF None, of "[]"] None show ?thesis
      by (subst split_from.simps) simp
  next
    case (Some m)
    obtain start q rest' g where m: "m = (start, q, rest', g)" by (cases m) auto
    from search_blank_Some[OF Some[unfolded m], of "[]"]
    have 1: "spec_blocks_from [] rest = take (start - p) rest # spec_blocks_from [] rest'"
      and 2: "length rest' < length rest" by simp_all
    from less[OF 2, of q] 1 2 Some m show ?thesis
      by (subst split_from.simps) simp
  qed
qed

lemma re_split_blank: "re_split blank_re s = spec_blocks s"
  by (simp add: re_split_def spec_blocks_def split_from_blank)

subsection \<open>The loop over the cues\<close>

lemma enumerate_past:
  "k < m \<Longrightarrow> map (\<lambda>(i, x). if i = k then f x else x) (enumerate m xs) = xs"
  by (induction xs arbitrary: m) auto

lemma enumerate_update_1:
  "1 < length xs \<Longrightarrow>
   map (\<lambda>(i, x). if i = 1 then f x else x) (enumerate 0 xs) = xs[1 := f (xs ! 1)]"
proof -
  assume "1 < length xs"
  then obtain a b ys where xs: "xs = a # b # ys"
    by (cases xs; cases "tl xs") auto
  have "map (\<lambda>(i, x). if i = 1 then f x else x) (enumerate 2 ys) = ys"
    by (rule enumerate_past) simp
  then show ?thesis
    by (simp add: xs numeral_2_eq_2)
qed

lemma spec_cue_eq:
  "1 < length (splitlines cue) \<Longrightarrow>
   spec_cue cue =
     join [LF] ((splitlines cue)[1 := replace_char CHR ''.'' CHR '','' (splitlines cue ! 1)])"
  unfolding spec_cue_def by (subst enumerate_update_1) simp_all

lemma convert_cues_ok:
  "list_all (\<lambda>b. 2 \<le> length (splitlines b)) cues \<Longrightarrow>
   convert_cues cues acc = Inr (acc @ map spec_cue cues)"
  by (induction cues arbitrary: acc) (auto simp: Let_def spec_cue_eq)

lemma convert_cues_fail:
  "\<not> list_all (\<lambda>b. 2 \<le> length (splitlines b)) cues \<Longrightarrow>
   convert_cues cues acc = Inl IndexError"
  by (induction cues arbitrary: acc) (auto simp: Let_def)

subsection \<open>The converter\<close>

text \<open>
  C5. Where every block after the first has at least two lines, \<open>nrk_vtt_to_srt\<close> returns
  what the specification describes: the text is split into blocks at blank lines (line
  endings with or without a carriage return), the first block is dropped, in every other
  block the line at index 1 has each full stop replaced by a comma while the other lines
  stay as they are, and the converted blocks are joined with one blank line between them.
  The example of the specification converts to the expected text.
\<close>

theorem nrk_vtt_to_srt_refines_spec:
  "(list_all (\<lambda>b. 2 \<le> length (splitlines b)) (tl (spec_blocks vtt))
      \<longrightarrow> nrk_vtt_to_srt vtt = Inr (spec_vtt_to_srt vtt))
   \<and> nrk_vtt_to_srt example_vtt = Inr example_srt"
proof
  show "list_all (\<lambda>b. 2 \<le> length (splitlines b)) (tl (spec_blocks vtt))
      \<longrightarrow> nrk_vtt_to_srt vtt = Inr (spec_vtt_to_srt vtt)"
    by (simp add: nrk_vtt_to_srt_def re_split_blank convert_cues_ok spec_vtt_to_srt_def)
  show "nrk_vtt_to_srt example_vtt = Inr example_srt"
    by code_simp
qed

theorem nrk_vtt_to_srt_refines_spec_witness:
  "list_all (\<lambda>b. 2 \<le> length (splitlines b)) (tl (spec_blocks crlf_vtt))
   \<and> nrk_vtt_to_srt crlf_vtt = Inr crlf_srt"
proof -
  have h: "list_all (\<lambda>b. 2 \<le> length (splitlines b)) (tl (spec_blocks crlf_vtt))"
    by code_simp
  have v: "spec_vtt_to_srt crlf_vtt = crlf_srt"
    by code_simp
  from nrk_vtt_to_srt_refines_spec[of crlf_vtt] h v show ?thesis
    by simp
qed

text \<open>
  A text that ends in two line feeds always has a last block of fewer than two lines: the
  two line feeds are a delimiter with nothing behind it, or the second one alone is what
  remains behind a delimiter that ended on the first.
\<close>

lemma spec_blocks_from_Nil: "spec_blocks_from cur [] = [cur]"
  by (subst spec_blocks_from.simps) simp

lemma spec_blocks_from_LF: "spec_blocks_from cur [LF] = [cur @ [LF]]"
  by (subst spec_blocks_from.simps)
     (simp add: blank_line_at_def startswith_def spec_blocks_from_Nil)

lemma spec_blocks_trailing_blank:
  "\<exists>bs b. spec_blocks_from cur (s @ [LF, LF]) = bs @ [b] \<and> bs \<noteq> []
     \<and> (b = [] \<or> b = [LF])"
proof (induction "length s" arbitrary: s cur rule: less_induct)
  case less
  let ?t = "s @ [LF, LF]"
  obtain c cs where t: "?t = c # cs" by (cases ?t) auto
  show ?case
  proof (cases "blank_line_at ?t")
    case None
    then obtain d ds where s: "s = d # ds"
      by (cases s) (auto simp: blank_line_at_def startswith_def)
    from less[of ds "cur @ [d]"] s None show ?thesis
      by (subst spec_blocks_from.simps) auto
  next
    case (Some n)
    have eq: "spec_blocks_from cur ?t = cur # spec_blocks_from [] (drop n ?t)"
      using Some t by (subst spec_blocks_from.simps) simp
    from blank_line_at_pos[OF Some] have n: "0 < n" "n \<le> length s + 2" by simp_all
    show ?thesis
    proof (cases "n \<le> length s")
      case True
      then have d: "drop n ?t = drop n s @ [LF, LF]" by simp
      have "length (drop n s) < length s" using n True by simp
      from less[OF this, of "[]"] show ?thesis
        unfolding eq d by (metis append_Cons list.distinct(1))
    next
      case False
      with n have "n = length s + 1 \<or> n = length s + 2" by linarith
      then have "drop n ?t = [LF] \<or> drop n ?t = []" by auto
      then show ?thesis
        unfolding eq by (auto simp: spec_blocks_from_Nil spec_blocks_from_LF)
    qed
  qed
qed

lemma splitlines_short: "length (splitlines []) < 2" "length (splitlines [LF]) < 2"
  by (simp_all add: splitlines_def linebreak_def)

lemma trailing_blank_fails: "nrk_vtt_to_srt (s @ [LF, LF]) = Inl IndexError"
proof -
  from spec_blocks_trailing_blank[of "[]" s] obtain bs b where
    e: "spec_blocks (s @ [LF, LF]) = bs @ [b]" and ne: "bs \<noteq> []"
    and b: "b = [] \<or> b = [LF]"
    unfolding spec_blocks_def by blast
  from ne have "tl (bs @ [b]) = tl bs @ [b]" by simp
  moreover have "\<not> 2 \<le> length (splitlines b)" using b splitlines_short by auto
  ultimately have "\<not> list_all (\<lambda>b. 2 \<le> length (splitlines b))
      (tl (spec_blocks (s @ [LF, LF])))"
    unfolding e by simp
  then show ?thesis
    by (simp add: nrk_vtt_to_srt_def re_split_blank convert_cues_fail)
qed

text \<open>
  C9. \<open>nrk_vtt_to_srt\<close> is partial: it returns a text exactly when every block after the
  first has at least two lines, and otherwise the read of line index 1 raises
  \<^verbatim>\<open>IndexError\<close>. It fails on every text that ends in two line feeds (the last block
  has no second line), and on a cue block of one line.
\<close>

theorem nrk_vtt_to_srt_partial:
  "((\<exists>srt. nrk_vtt_to_srt vtt = Inr srt) =
      list_all (\<lambda>b. 2 \<le> length (splitlines b)) (tl (re_split blank_re vtt)))
   \<and> ((\<forall>srt. nrk_vtt_to_srt vtt \<noteq> Inr srt) = (nrk_vtt_to_srt vtt = Inl IndexError))
   \<and> nrk_vtt_to_srt (s @ [LF, LF]) = Inl IndexError
   \<and> nrk_vtt_to_srt (''WEBVTT'' @ [LF, LF] @ ''Hello'') = Inl IndexError"
proof (intro conjI)
  show "(\<exists>srt. nrk_vtt_to_srt vtt = Inr srt) =
      list_all (\<lambda>b. 2 \<le> length (splitlines b)) (tl (re_split blank_re vtt))"
    by (cases "list_all (\<lambda>b. 2 \<le> length (splitlines b)) (tl (re_split blank_re vtt))")
       (simp_all add: nrk_vtt_to_srt_def convert_cues_ok convert_cues_fail)
  show "(\<forall>srt. nrk_vtt_to_srt vtt \<noteq> Inr srt) = (nrk_vtt_to_srt vtt = Inl IndexError)"
    by (cases "list_all (\<lambda>b. 2 \<le> length (splitlines b)) (tl (re_split blank_re vtt))")
       (simp_all add: nrk_vtt_to_srt_def convert_cues_ok convert_cues_fail)
  show "nrk_vtt_to_srt (s @ [LF, LF]) = Inl IndexError"
    by (rule trailing_blank_fails)
  show "nrk_vtt_to_srt (''WEBVTT'' @ [LF, LF] @ ''Hello'') = Inl IndexError"
    by code_simp
qed

section \<open>Properties of the matcher\<close>

subsection \<open>Pieces of the patterns\<close>

lemma rmatch_Cls_Nil [simp]: "rmatch (Cls P) (p, [], g) = []" by simp

lemma rmatch_Cls_Cons [simp]: "rmatch (Cls P) (p, c # cs, g) = (if P c then [(Suc p, cs, g)] else [])" by simp

lemma rmatch_Seq_fun: "rmatch (Seq a b) = (\<lambda>st. concat (map (rmatch b) (rmatch a st)))"
  by (rule ext) simp

lemma iterate_rep_Cls:
  "iterate_rep n (rmatch (Cls P)) (p, rest, g) =
     (if n \<le> length rest \<and> list_all P (take n rest) then [(p + n, drop n rest, g)] else [])"
proof (induction n arbitrary: p rest)
  case 0
  then show ?case by simp
next
  case (Suc n)
  show ?case
  proof (cases rest)
    case Nil
    then show ?thesis by simp
  next
    case (Cons c cs)
    then show ?thesis using Suc[of "Suc p" cs] by simp
  qed
qed

lemma rmatch_lits:
  "rmatch (lits cs) (p, rest, g) =
     (if startswith rest cs then [(p + length cs, drop (length cs) rest, g)] else [])"
proof (induction cs arbitrary: p rest)
  case Nil
  then show ?case by (simp add: startswith_def)
next
  case (Cons c cs)
  show ?case
  proof (cases rest)
    case Nil
    then show ?thesis by (simp add: startswith_def)
  next
    case (Cons x xs)
    then show ?thesis using Cons.IH[of "Suc p" xs] by (auto simp: startswith_def)
  qed
qed

lemma plus_then:
  assumes K: "\<And>q c cs h. P c \<Longrightarrow> K (q, c # cs, h) = []"
  shows "length rest < fuel \<Longrightarrow>
     concat (map K (iterate_plus fuel (rmatch (Cls P)) (p, rest, g))) =
       (if takeWhile P rest = [] then []
        else K (p + length (takeWhile P rest), dropWhile P rest, g))"
proof (induction rest arbitrary: fuel p)
  case Nil
  then obtain f where "fuel = Suc f" by (cases fuel) auto
  then show ?case by simp
next
  case (Cons c cs)
  then obtain f where f: "fuel = Suc f" by (cases fuel) auto
  with Cons.prems have lt: "length cs < f" by simp
  show ?case
  proof (cases "P c")
    case False
    then show ?thesis by (simp add: f)
  next
    case True
    have "concat (map K (iterate_plus fuel (rmatch (Cls P)) (p, c # cs, g))) =
          concat (map K (iterate_plus f (rmatch (Cls P)) (Suc p, cs, g))) @ K (Suc p, cs, g)"
      using True by (simp add: f)
    also have "\<dots> = (if takeWhile P cs = [] then []
        else K (Suc p + length (takeWhile P cs), dropWhile P cs, g)) @ K (Suc p, cs, g)"
      by (simp only: Cons.IH[OF lt, of "Suc p"])
    also have "\<dots> = K (p + length (takeWhile P (c # cs)), dropWhile P (c # cs), g)"
    proof (cases cs)
      case Nil
      then show ?thesis using True by simp
    next
      case (Cons d ds)
      then show ?thesis using True K[of d "Suc p" ds g] by auto
    qed
    finally show ?thesis using True by (simp del: rmatch.simps)
  qed
qed

lemma rmatch_sep_begin:
  "rmatch (Grp 1 (Alt Bol (Lit CHR ''/''))) (p, rest, g) =
     (if p = 0 then [(p, rest, g(1 \<mapsto> []))] else []) @
     (case rest of [] \<Rightarrow> [] | c # cs \<Rightarrow> if c = CHR ''/'' then [(Suc p, cs, g(1 \<mapsto> ''/''))] else [])"
  by (simp split: list.splits)

lemma rmatch_sep_end:
  "rmatch (Grp 3 (Alt Eol (Lit CHR ''/''))) (p, rest, g) =
     (if rest = [] \<or> rest = [LF] then [(p, rest, g(3 \<mapsto> []))] else []) @
     (case rest of [] \<Rightarrow> [] | c # cs \<Rightarrow> if c = CHR ''/'' then [(Suc p, cs, g(3 \<mapsto> ''/''))] else [])"
  by (simp split: list.splits)

lemma first_group2_map:
  "first_group2 r p rest =
     (case map (\<lambda>(q, r, h). h 2) (rmatch r (p, rest, Map.empty)) of [] \<Rightarrow> None | x # _ \<Rightarrow> Some x)"
  unfolding first_group2_def by (cases "rmatch r (p, rest, Map.empty)") auto

lemma find_upt:
  "find P [a..<b] = (if a < b then (if P a then Some a else find P [Suc a..<b]) else None)"
  by (simp add: upt_rec)

lemma find_upt_Some:
  "find P [0..<m] = Some n \<Longrightarrow> P n \<and> n < m \<and> (\<forall>k<n. \<not> P k)"
  by (auto simp: find_Some_iff)

lemma find_upt_None:
  "find P [0..<m] = None \<Longrightarrow> k < m \<Longrightarrow> \<not> P k"
  by (auto simp: find_None_iff)

lemma search_from_first:
  "map_option (\<lambda>(start, q, r, g). g 2) (search_from r p rest) =
     (case first_group2 r p rest of
        Some x \<Rightarrow> Some x
      | None \<Rightarrow> (case rest of [] \<Rightarrow> None
                 | c # cs \<Rightarrow> map_option (\<lambda>(start, q, r, g). g 2) (search_from r (Suc p) cs)))"
  unfolding first_group2_def
  by (cases rest; cases "rmatch r (p, rest, Map.empty)") (auto split: prod.splits)

lemma search_scan:
  assumes first: "\<And>p rest. first_group2 r p rest =
       (if p = 0 \<and> here rest then Some (Some (tok rest))
        else case rest of [] \<Rightarrow> None
             | c # cs \<Rightarrow> if c = CHR ''/'' \<and> here cs then Some (Some (tok cs)) else None)"
    and nil: "\<not> here []"
  shows "p \<le> length s \<Longrightarrow>
     map_option (\<lambda>(start, q, r, g). g 2) (search_from r p (drop p s)) =
     map_option (\<lambda>n. Some (tok (drop n s)))
       (find (\<lambda>n. here (drop n s) \<and> left_delim s n) [(if p = 0 then 0 else Suc p)..<Suc (length s)])"
proof (induction "length s - p" arbitrary: p)
  case 0
  then have p: "p = length s" by simp
  show ?case
    by (subst search_from_first) (simp add: p first nil find_upt[of _ 0] left_delim_def)
next
  case (Suc k)
  then have lt: "p < length s" by simp
  then obtain c cs where d: "drop p s = c # cs"
    by (cases "drop p s") auto
  then have cs: "cs = drop (Suc p) s" and c: "c = s ! p"
    using lt by (metis drop_Suc list.sel(3) tl_drop, metis Cons_nth_drop_Suc list.inject lt)
  have IH: "map_option (\<lambda>(start, q, r, g). g 2) (search_from r (Suc p) (drop (Suc p) s)) =
     map_option (\<lambda>n. Some (tok (drop n s)))
       (find (\<lambda>n. here (drop n s) \<and> left_delim s n) [Suc (Suc p)..<Suc (length s)])"
    using Suc(1)[of "Suc p"] Suc(2) lt by simp
  have ld: "left_delim s (Suc p) = (c = CHR ''/'')"
    by (simp add: left_delim_def c)
  define Q where "Q = (\<lambda>n. here (drop n s) \<and> left_delim s n)"
  have Q0: "Q 0 = here s" by (simp add: Q_def left_delim_def)
  have Q1: "Q (Suc p) = (here cs \<and> c = CHR ''/'')" by (simp add: Q_def ld cs)
  show ?case
  proof (cases "p = 0")
    case True
    have R: "find Q [0..<Suc (length s)] =
        (if Q 0 then Some 0 else if Q (Suc 0) then Some (Suc 0) else find Q [Suc (Suc 0)..<Suc (length s)])"
      using lt True by (subst find_upt, subst find_upt[of _ "Suc 0"]) simp
    show ?thesis
      unfolding Q_def[symmetric]
      apply (subst search_from_first)
      using True d IH[folded Q_def] Q0 Q1 R
      by (auto simp add: first cs[symmetric])
  next
    case False
    have R: "find Q [Suc p..<Suc (length s)] =
        (if Q (Suc p) then Some (Suc p) else find Q [Suc (Suc p)..<Suc (length s)])"
      using lt by (subst find_upt) simp
    show ?thesis
      unfolding Q_def[symmetric]
      apply (subst search_from_first)
      using False d IH[folded Q_def] Q1 R
      by (auto simp add: first cs[symmetric])
  qed
qed

lemma drop_eq_single: "(drop m s = [x]) = (Suc m = length s \<and> s ! m = x)"
proof
  assume a: "drop m s = [x]"
  then have "length (drop m s) = 1" by simp
  then have l: "Suc m = length s" by simp
  then have "drop m s = [s ! m]"
    by (metis Cons_nth_drop_Suc drop_all lessI order_refl)
  with a l show "Suc m = length s \<and> s ! m = x" by simp
next
  assume "Suc m = length s \<and> s ! m = x"
  then show "drop m s = [x]"
    by (metis Cons_nth_drop_Suc drop_all lessI order_refl)
qed

text \<open>A group that has taken part keeps its text through the rest of a match.\<close>

lemma iterate_rep_keeps:
  assumes step: "\<And>st st'. st' \<in> set (step st) \<Longrightarrow> P st \<Longrightarrow> P st'"
  shows "st' \<in> set (iterate_rep k step st) \<Longrightarrow> P st \<Longrightarrow> P st'"
  by (induction k arbitrary: st) (auto dest: step)

lemma iterate_plus_keeps:
  assumes step: "\<And>st st'. st' \<in> set (step st) \<Longrightarrow> P st \<Longrightarrow> P st'"
  shows "st' \<in> set (iterate_plus fuel step st) \<Longrightarrow> P st \<Longrightarrow> P st'"
  by (induction fuel arbitrary: st) (auto dest: step split: if_splits)

lemma rmatch_keeps_group:
  "st' \<in> set (rmatch r st) \<Longrightarrow> snd (snd st) n \<noteq> None \<Longrightarrow> snd (snd st') n \<noteq> None"
proof (induction r arbitrary: st st')
  case (Plus r)
  from Plus.prems(1)
  have m: "st' \<in> set (iterate_plus (Suc (length (fst (snd st)))) (rmatch r) st)"
    by (simp only: rmatch.simps)
  show ?case
  proof (rule iterate_plus_keeps[where P = "\<lambda>st. snd (snd st) n \<noteq> None", OF _ m Plus.prems(2)])
    fix a b assume "b \<in> set (rmatch r a)" "snd (snd a) n \<noteq> None"
    then show "snd (snd b) n \<noteq> None" by (rule Plus.IH)
  qed
next
  case (Rep k r)
  from Rep.prems(1) have m: "st' \<in> set (iterate_rep k (rmatch r) st)"
    by (simp only: rmatch.simps)
  show ?case
  proof (rule iterate_rep_keeps[where P = "\<lambda>st. snd (snd st) n \<noteq> None", OF _ m Rep.prems(2)])
    fix a b assume "b \<in> set (rmatch r a)" "snd (snd a) n \<noteq> None"
    then show "snd (snd b) n \<noteq> None" by (rule Rep.IH)
  qed
next
  case (Seq a b)
  from Seq.prems(1) obtain st1 where "st1 \<in> set (rmatch a st)" "st' \<in> set (rmatch b st1)"
    by auto
  with Seq.IH Seq.prems(2) show ?case by blast
next
  case (Alt a b)
  from Alt.prems(1) have "st' \<in> set (rmatch a st) \<or> st' \<in> set (rmatch b st)" by simp
  with Alt.IH Alt.prems(2) show ?case by blast
next
  case (Opt a)
  from Opt.prems(1) have "st' \<in> set (rmatch a st) \<or> st' = st" by auto
  with Opt.IH Opt.prems(2) show ?case by blast
next
  case (Grp k a)
  obtain p rest g where st: "st = (p, rest, g)" by (cases st) auto
  from Grp.prems(1) have "st' \<in> (\<lambda>(q, rest', h). (q, rest', h(k \<mapsto> take (q - p) rest)))
                                 ` set (rmatch a st)"
    unfolding st by (simp only: rmatch.simps prod.case set_map)
  then obtain st1 where st1: "st1 \<in> set (rmatch a st)"
      and e: "st' = (case st1 of (q, rest', h) \<Rightarrow> (q, rest', h(k \<mapsto> take (q - p) rest)))"
    by blast
  from Grp.IH[OF st1 Grp.prems(2)] show ?case
    unfolding e by (cases st1) simp
qed (auto split: list.splits if_splits prod.splits)

lemma rmatch_Grp_sets:
  "st' \<in> set (rmatch (Grp n a) st) \<Longrightarrow> snd (snd st') n \<noteq> None"
  by (auto split: prod.splits)

lemma search_from_result:
  "search_from r p rest = Some (start, m) \<Longrightarrow> \<exists>st. m \<in> set (rmatch r st)"
proof (induction rest arbitrary: p)
  case Nil
  then have "rmatch r (p, [], Map.empty) = m # tl (rmatch r (p, [], Map.empty))"
    by (auto split: list.splits)
  then have "m \<in> set (rmatch r (p, [], Map.empty))" by (metis list.set_intros(1))
  then show ?case by blast
next
  case (Cons c cs)
  show ?case
  proof (cases "rmatch r (p, c # cs, Map.empty)")
    case Nil
    with Cons show ?thesis by simp
  next
    case (Cons x xs)
    with Cons.prems have "x = m" by simp
    with Cons have "m \<in> set (rmatch r (p, c # cs, Map.empty))" by simp
    then show ?thesis by blast
  qed
qed

subsection \<open>The direct pattern\<close>

lemma rmatch_token:
  "rmatch (Grp 2 (Seq (Rep 4 (Cls upper)) (Rep 8 (Cls digit)))) (p, rest, g) =
     (if 12 \<le> length rest \<and> list_all upper (take 4 rest) \<and> list_all digit (take 8 (drop 4 rest))
      then [(p + 12, drop 12 rest, g(2 \<mapsto> take 12 rest))] else [])"
  by (auto simp add: iterate_rep_Cls)

lemma token_then_end:
  "map (\<lambda>(q, r, h). h 2)
       (concat (map (rmatch (Grp 3 (Alt Eol (Lit CHR ''/''))))
                    (rmatch (Grp 2 (Seq (Rep 4 (Cls upper)) (Rep 8 (Cls digit)))) (p, rest, g)))) =
     (if tok_here rest then [Some (take 12 rest)] else [])"
proof (cases "12 \<le> length rest \<and> list_all upper (take 4 rest) \<and> list_all digit (take 8 (drop 4 rest))")
  case False
  then show ?thesis
    unfolding rmatch_token tok_here_def by auto
next
  case True
  then show ?thesis
    unfolding rmatch_token tok_here_def
    by (cases "drop 12 rest") (auto simp add: rmatch_sep_end)
qed

lemma rmatch_direct_re:
  "map (\<lambda>(q, r, h). h 2) (rmatch direct_re (p, rest, g)) =
     (if p = 0 \<and> tok_here rest then [Some (take 12 rest)] else []) @
     (case rest of [] \<Rightarrow> []
      | c # cs \<Rightarrow> if c = CHR ''/'' \<and> tok_here cs then [Some (take 12 cs)] else [])"
proof -
  define tail where "tail = (\<lambda>st1. map (\<lambda>(q, r, h). h 2)
       (concat (map (rmatch (Grp 3 (Alt Eol (Lit CHR ''/''))))
                    (rmatch (Grp 2 (Seq (Rep 4 (Cls upper)) (Rep 8 (Cls digit)))) st1))))"
  have tail: "tail (p', rest', g') = (if tok_here rest' then [Some (take 12 rest')] else [])"
    for p' rest' g'
    unfolding tail_def by (rule token_then_end)
  have seq: "map (\<lambda>(q, r, h). h 2) (rmatch direct_re st) =
      concat (map tail (rmatch (Grp 1 (Alt Bol (Lit CHR ''/''))) st))" for st
    unfolding direct_re_def tail_def by (simp only: rmatch_Seq_fun map_concat map_map comp_def)
  show ?thesis
    unfolding seq rmatch_sep_begin
    by (cases rest) (simp_all add: tail)
qed

lemma tok_here_drop:
  "tok_here (drop n s) = (token_at s n \<and> right_delim_re s (n + 12))"
proof (cases "n + 12 \<le> length s")
  case False
  then show ?thesis by (auto simp: tok_here_def token_at_def)
next
  case True
  have d: "drop 12 (drop n s) = drop (n + 12) s" by (simp add: add.commute)
  have e: "(drop (n + 12) s = []) = (n + 12 = length s)" using True by auto
  have h: "n + 12 < length s \<Longrightarrow> hd (drop (n + 12) s) = s ! (n + 12)"
    by (simp add: hd_drop_conv_nth)
  show ?thesis
    unfolding tok_here_def token_at_def right_delim_re_def right_delim_def d e drop_eq_single
    using True h by (auto simp: add.commute)
qed

lemma tok_here_Nil: "\<not> tok_here []"
  by (simp add: tok_here_def)

lemma re_search_direct:
  "map_option (\<lambda>g. g 2) (re_search direct_re s) =
     map_option (\<lambda>n. Some (take 12 (drop n s)))
       (find (direct_match_at s) [0..<Suc (length s)])"
proof -
  have first: "first_group2 direct_re p rest =
       (if p = 0 \<and> tok_here rest then Some (Some (take 12 rest))
        else case rest of [] \<Rightarrow> None
             | c # cs \<Rightarrow> if c = CHR ''/'' \<and> tok_here cs then Some (Some (take 12 cs)) else None)"
    for p rest
    unfolding first_group2_map rmatch_direct_re by (auto split: list.splits)
  have m: "(\<lambda>n. tok_here (drop n s) \<and> left_delim s n) = direct_match_at s"
    by (rule ext) (auto simp: tok_here_drop direct_match_at_def)
  have "map_option (\<lambda>g. g 2) (re_search direct_re s) =
        map_option (\<lambda>(start, q, r, g). g 2) (search_from direct_re 0 (drop 0 s))"
    unfolding re_search_def by (cases "search_from direct_re 0 s") auto
  also have "\<dots> = map_option (\<lambda>n. Some (take 12 (drop n s)))
       (find (\<lambda>n. tok_here (drop n s) \<and> left_delim s n) [0..<Suc (length s)])"
    using search_scan[of direct_re tok_here "take 12" 0 s, OF first tok_here_Nil] by simp
  finally show ?thesis unfolding m .
qed

lemma direct_at_match: "direct_at s n \<Longrightarrow> direct_match_at s n"
  by (simp add: direct_at_def direct_match_at_def right_delim_re_def)

lemma direct_at_bound: "direct_match_at s n \<Longrightarrow> n < Suc (length s)"
  by (simp add: direct_match_at_def token_at_def)

lemma digit_LF: "\<not> digit LF"
  by (simp add: digit_def)

lemma direct_match_proper:
  assumes m: "direct_match_at s m" and n: "direct_at s n" and le: "m \<le> n"
  shows "direct_at s m"
proof (rule ccontr)
  assume not: "\<not> direct_at s m"
  with m have lf: "Suc (m + 12) = length s" "s ! (m + 12) = LF"
    by (auto simp: direct_at_def direct_match_at_def right_delim_re_def)
  from n have tn: "n + 12 \<le> length s" and dn: "list_all digit (take 8 (drop (n + 4) s))"
    by (auto simp: direct_at_def token_at_def)
  from not n have "n \<noteq> m" by auto
  with le tn lf have n1: "n = Suc m" by simp
  have len: "length (take 8 (drop (n + 4) s)) = 8" using tn by simp
  have "digit (take 8 (drop (n + 4) s) ! 7)"
  proof -
    have "7 < length (take 8 (drop (n + 4) s))" unfolding len by simp
    with dn show ?thesis unfolding list_all_length by blast
  qed
  moreover have "take 8 (drop (n + 4) s) ! 7 = s ! (m + 12)"
    using tn n1 by (simp add: add.commute)
  ultimately show False using lf digit_LF by simp
qed

lemma re_search_direct_least:
  assumes n: "direct_at s n"
  shows "\<exists>g. re_search direct_re s = Some g \<and> g 2 = Some (take 12 (drop (LEAST m. direct_at s m) s))"
proof -
  have ex: "find (direct_match_at s) [0..<Suc (length s)] \<noteq> None"
    using find_upt_None[of "direct_match_at s" "Suc (length s)" n]
      direct_at_match[OF n] direct_at_bound[OF direct_at_match[OF n]] by auto
  then obtain m where f: "find (direct_match_at s) [0..<Suc (length s)] = Some m" by auto
  note fm = find_upt_Some[OF f]
  have le: "m \<le> n"
    using fm direct_at_match[OF n] by (meson not_le_imp_less)
  have pm: "direct_at s m" using direct_match_proper[OF _ n le] fm by simp
  have least: "(LEAST k. direct_at s k) = m"
  proof (rule Least_equality)
    show "direct_at s m" by (rule pm)
    fix k assume "direct_at s k"
    then have "direct_match_at s k" by (rule direct_at_match)
    with fm show "m \<le> k" by (meson not_le_imp_less)
  qed
  from re_search_direct[of s] f obtain g where "re_search direct_re s = Some g"
    and "g 2 = Some (take 12 (drop m s))"
    by (cases "re_search direct_re s") auto
  then show ?thesis using least by simp
qed

text \<open>The direct pattern matches nowhere exactly when no offset holds a token as \<^verbatim>\<open>$\<close>
  reads the right delimiter.\<close>

lemma re_search_direct_None:
  "(re_search direct_re s = None) = (\<forall>n. \<not> direct_match_at s n)"
proof -
  have "(re_search direct_re s = None) = (find (direct_match_at s) [0..<Suc (length s)] = None)"
    using re_search_direct[of s] by (metis option.map_disc_iff)
  also have "\<dots> = (\<forall>n<Suc (length s). \<not> direct_match_at s n)"
    unfolding find_None_iff by (metis atLeastLessThan_iff set_upt zero_le)
  also have "\<dots> = (\<forall>n. \<not> direct_match_at s n)"
    using direct_at_bound by blast
  finally show ?thesis .
qed

subsection \<open>The star pattern\<close>

lemma hex_not_delim: "hex_or_hyphen c \<Longrightarrow> c \<noteq> LF \<and> c \<noteq> CHR ''/''"
  by (auto simp: hex_or_hyphen_def digit_def)

lemma run_then_end:
  "map (\<lambda>(q, r, h). h 2)
     (concat (map (rmatch (Grp 3 (Alt Eol (Lit CHR ''/''))))
                  (rmatch (Grp 2 (Plus (Cls hex_or_hyphen))) (p, rest, g)))) =
   (if \<not> takeWhile hex_or_hyphen rest = []
       \<and> (dropWhile hex_or_hyphen rest = [] \<or> dropWhile hex_or_hyphen rest = [LF]
          \<or> hd (dropWhile hex_or_hyphen rest) = CHR ''/'')
    then [Some (takeWhile hex_or_hyphen rest)] else [])"
proof -
  define K where "K = (\<lambda>st. map (\<lambda>(q, r, h). h 2)
      (rmatch (Grp 3 (Alt Eol (Lit CHR ''/'')))
         (case st of (q, rest', h) \<Rightarrow> (q, rest', h(2 \<mapsto> take (q - p) rest)))))"
  have K0: "K (q, c # cs, h) = []" if "hex_or_hyphen c" for q c cs h
    using hex_not_delim[OF that] unfolding K_def by (simp add: rmatch_sep_end del: rmatch.simps)
  have eq: "map (\<lambda>(q, r, h). h 2)
     (concat (map (rmatch (Grp 3 (Alt Eol (Lit CHR ''/''))))
                  (rmatch (Grp 2 (Plus (Cls hex_or_hyphen))) (p, rest, g)))) =
     concat (map K (iterate_plus (Suc (length rest)) (rmatch (Cls hex_or_hyphen)) (p, rest, g)))"
    unfolding K_def
    by (simp only: rmatch.simps(9,11) map_concat map_map comp_def prod.case fst_conv snd_conv)
  have t: "take (length (takeWhile hex_or_hyphen rest)) rest = takeWhile hex_or_hyphen rest"
    by (simp add: takeWhile_eq_take[symmetric])
  define after where "after = dropWhile hex_or_hyphen rest"
  define run where "run = takeWhile hex_or_hyphen rest"
  have pt: "concat (map K (iterate_plus (Suc (length rest)) (rmatch (Cls hex_or_hyphen)) (p, rest, g))) =
       (if run = [] then [] else K (p + length run, after, g))"
    unfolding run_def after_def by (rule plus_then[where K=K, OF K0]) simp_all
  have ke: "K (p + length run, after, g) =
       (if after = [] \<or> after = [LF] \<or> hd after = CHR ''/'' then [Some run] else [])"
    unfolding K_def using t[folded run_def]
    by (cases after) (auto simp add: rmatch_sep_end simp del: rmatch.simps)
  show ?thesis
    unfolding eq pt ke run_def[symmetric] after_def[symmetric] by simp
qed

lemma star_then_end:
  "map (\<lambda>(q, r, h). h 2)
     (concat (map (rmatch (Seq (Grp 2 (Plus (Cls hex_or_hyphen))) (Grp 3 (Alt Eol (Lit CHR ''/'')))))
                  (rmatch (lits ''PS*'') (p, rest, g)))) =
   (if star_here rest then [Some (takeWhile hex_or_hyphen (drop 3 rest))] else [])"
proof (cases "startswith rest ''PS*''")
  case False
  then show ?thesis
    unfolding rmatch_lits star_here_def by simp
next
  case True
  have "map (\<lambda>(q, r, h). h 2)
     (concat (map (rmatch (Seq (Grp 2 (Plus (Cls hex_or_hyphen))) (Grp 3 (Alt Eol (Lit CHR ''/'')))))
                  (rmatch (lits ''PS*'') (p, rest, g)))) =
     map (\<lambda>(q, r, h). h 2)
     (concat (map (rmatch (Grp 3 (Alt Eol (Lit CHR ''/''))))
                  (rmatch (Grp 2 (Plus (Cls hex_or_hyphen))) (p + 3, drop 3 rest, g))))"
    unfolding rmatch_lits using True by (simp del: rmatch.simps add: rmatch.simps(6) numeral_3_eq_3)
  then show ?thesis
    unfolding run_then_end star_here_def using True by simp
qed

lemma rmatch_star_re:
  "map (\<lambda>(q, r, h). h 2) (rmatch star_re (p, rest, g)) =
     (if p = 0 \<and> star_here rest then [Some (takeWhile hex_or_hyphen (drop 3 rest))] else []) @
     (case rest of [] \<Rightarrow> []
      | c # cs \<Rightarrow> if c = CHR ''/'' \<and> star_here cs
                 then [Some (takeWhile hex_or_hyphen (drop 3 cs))] else [])"
proof -
  define tail where "tail = (\<lambda>st1. map (\<lambda>(q, r, h). h 2)
     (concat (map (rmatch (Seq (Grp 2 (Plus (Cls hex_or_hyphen))) (Grp 3 (Alt Eol (Lit CHR ''/'')))))
                  (rmatch (lits ''PS*'') st1))))"
  have tail: "tail (p', rest', g') =
      (if star_here rest' then [Some (takeWhile hex_or_hyphen (drop 3 rest'))] else [])"
    for p' rest' g'
    unfolding tail_def by (rule star_then_end)
  have seq: "map (\<lambda>(q, r, h). h 2) (rmatch star_re st) =
      concat (map tail (rmatch (Grp 1 (Alt Bol (Lit CHR ''/''))) st))" for st
    unfolding star_re_def tail_def by (simp only: rmatch_Seq_fun map_concat map_map comp_def)
  show ?thesis
    unfolding seq rmatch_sep_begin
    by (cases rest) (simp_all add: tail)
qed

lemma star_here_Nil: "\<not> star_here []"
  by (simp add: star_here_def startswith_def)

lemma star_here_drop:
  "star_here (drop n s) =
     (take 3 (drop n s) = ''PS*'' \<and> \<not> star_run s n = []
      \<and> right_delim_re s (n + 3 + length (star_run s n)))"
proof -
  define m where "m = n + 3 + length (star_run s n)"
  have d3: "drop 3 (drop n s) = drop (n + 3) s" by (simp add: add.commute)
  have dw: "dropWhile hex_or_hyphen (drop (n + 3) s) = drop m s"
    unfolding m_def star_run_def by (simp add: dropWhile_eq_drop add.commute)
  have le: "\<not> star_run s n = [] \<Longrightarrow> m \<le> length s"
  proof -
    have "length (star_run s n) \<le> length (drop (n + 3) s)"
      unfolding star_run_def by (rule length_takeWhile_le)
    moreover assume "\<not> star_run s n = []"
    then have "0 < length (drop (n + 3) s)" unfolding star_run_def by (cases "drop (n + 3) s") auto
    ultimately show ?thesis unfolding m_def by simp
  qed
  have e: "(drop m s = []) = (length s \<le> m)" by simp
  have h: "m < length s \<Longrightarrow> hd (drop m s) = s ! m"
    by (simp add: hd_drop_conv_nth)
  show ?thesis
    unfolding star_here_def startswith_def d3 dw star_run_def[symmetric] m_def[symmetric]
      right_delim_re_def right_delim_def drop_eq_single e
    using le h by (auto simp: star_run_def numeral_3_eq_3)
qed

lemma re_search_star:
  "map_option (\<lambda>g. g 2) (re_search star_re s) =
     map_option (\<lambda>n. Some (star_run s n))
       (find (star_match_at s) [0..<Suc (length s)])"
proof -
  have first: "first_group2 star_re p rest =
       (if p = 0 \<and> star_here rest then Some (Some (takeWhile hex_or_hyphen (drop 3 rest)))
        else case rest of [] \<Rightarrow> None
             | c # cs \<Rightarrow> if c = CHR ''/'' \<and> star_here cs
                        then Some (Some (takeWhile hex_or_hyphen (drop 3 cs))) else None)"
    for p rest
    unfolding first_group2_map rmatch_star_re by (auto split: list.splits)
  have m: "(\<lambda>n. star_here (drop n s) \<and> left_delim s n) = star_match_at s"
    by (rule ext) (auto simp: star_here_drop star_match_at_def)
  have r: "(\<lambda>n. Some (takeWhile hex_or_hyphen (drop 3 (drop n s)))) = (\<lambda>n. Some (star_run s n))"
    by (rule ext) (simp add: star_run_def add.commute)
  have "map_option (\<lambda>g. g 2) (re_search star_re s) =
        map_option (\<lambda>(start, q, r, g). g 2) (search_from star_re 0 (drop 0 s))"
    unfolding re_search_def by (cases "search_from star_re 0 s") auto
  also have "\<dots> = map_option (\<lambda>n. Some (takeWhile hex_or_hyphen (drop 3 (drop n s))))
       (find (\<lambda>n. star_here (drop n s) \<and> left_delim s n) [0..<Suc (length s)])"
    using search_scan[of star_re star_here "\<lambda>r. takeWhile hex_or_hyphen (drop 3 r)" 0 s,
                      OF first star_here_Nil] by simp
  finally show ?thesis unfolding m r .
qed

lemma star_at_match: "star_at s n \<Longrightarrow> star_match_at s n"
  by (simp add: star_at_def star_match_at_def right_delim_re_def)

lemma take3_nth:
  assumes "take 3 (drop n s) = [a, b, c]"
  shows "n + 3 \<le> length s \<and> s ! n = a \<and> s ! (n + 1) = b \<and> s ! (n + 2) = c"
proof -
  from assms have "length (take 3 (drop n s)) = 3" by simp
  then have l: "n + 3 \<le> length s" by simp
  have "take 3 (drop n s) ! 0 = s ! n" "take 3 (drop n s) ! 1 = s ! (n + 1)"
       "take 3 (drop n s) ! 2 = s ! (n + 2)"
    using l by simp_all
  with assms l show ?thesis by simp
qed

lemma star_run_hex:
  assumes "j < length (star_run s m)"
  shows "hex_or_hyphen (s ! (m + 3 + j))"
proof -
  have "star_run s m ! j = drop (m + 3) s ! j"
    using assms unfolding star_run_def by (rule takeWhile_nth)
  moreover have "star_run s m ! j \<in> set (star_run s m)" using assms by simp
  then have "hex_or_hyphen (star_run s m ! j)"
    unfolding star_run_def by (rule set_takeWhileD[THEN conjunct2])
  moreover have "m + 3 + j \<le> length s \<Longrightarrow> drop (m + 3) s ! j = s ! (m + 3 + j)" by simp
  moreover have "length (star_run s m) \<le> length (drop (m + 3) s)"
    unfolding star_run_def by (rule length_takeWhile_le)
  ultimately show ?thesis using assms by simp
qed

lemma star_chars: "\<not> hex_or_hyphen CHR ''P''" "CHR ''S'' \<noteq> CHR ''P''" "CHR ''*'' \<noteq> CHR ''P''"
  by (simp_all add: hex_or_hyphen_def digit_def)

lemma star_match_proper:
  assumes m: "star_match_at s m" and n: "star_at s n" and le: "m \<le> n"
  shows "star_at s m"
proof (rule ccontr)
  assume not: "\<not> star_at s m"
  define e where "e = m + 3 + length (star_run s m)"
  from m not have lf: "Suc e = length s" "s ! e = LF"
    by (auto simp: star_at_def star_match_at_def right_delim_re_def e_def)
  from m have pm: "take 3 (drop m s) = [CHR ''P'', CHR ''S'', CHR ''*'']"
    by (simp add: star_match_at_def)
  from n have pn: "take 3 (drop n s) = [CHR ''P'', CHR ''S'', CHR ''*'']"
    by (simp add: star_at_def)
  note cm = take3_nth[OF pm] and cn = take3_nth[OF pn]
  from not n have "n \<noteq> m" by auto
  with le have lt: "m < n" by simp
  from cn lf have ne: "n < e" by simp
  consider "n = m + 1" | "n = m + 2" | "m + 3 \<le> n" using lt by linarith
  then show False
  proof cases
    case 1
    with cm cn show False using star_chars by simp
  next
    case 2
    with cm cn show False using star_chars by simp
  next
    case 3
    then obtain j where j: "n = m + 3 + j" using le_Suc_ex by blast
    with ne have "j < length (star_run s m)" by (simp add: e_def)
    from star_run_hex[OF this] j cn show False using star_chars by simp
  qed
qed

lemma star_match_bound: "star_match_at s n \<Longrightarrow> n < Suc (length s)"
  using take3_nth[of n s] by (auto simp add: star_match_at_def)

lemma re_search_star_least:
  assumes n: "star_at s n"
  shows "\<exists>g. re_search star_re s = Some g \<and> g 2 = Some (star_run s (LEAST m. star_at s m))"
proof -
  have ex: "find (star_match_at s) [0..<Suc (length s)] \<noteq> None"
    using find_upt_None[of "star_match_at s" "Suc (length s)" n]
      star_at_match[OF n] star_match_bound[OF star_at_match[OF n]] by auto
  then obtain m where f: "find (star_match_at s) [0..<Suc (length s)] = Some m" by auto
  note fm = find_upt_Some[OF f]
  have le: "m \<le> n"
    using fm star_at_match[OF n] by (meson not_le_imp_less)
  have pm: "star_at s m" using star_match_proper[OF _ n le] fm by simp
  have least: "(LEAST k. star_at s k) = m"
  proof (rule Least_equality)
    show "star_at s m" by (rule pm)
    fix k assume "star_at s k"
    then have "star_match_at s k" by (rule star_at_match)
    with fm show "m \<le> k" by (meson not_le_imp_less)
  qed
  from re_search_star[of s] f obtain g where "re_search star_re s = Some g"
    and "g 2 = Some (star_run s m)"
    by (cases "re_search star_re s") auto
  then show ?thesis using least by simp
qed

lemma re_search_group2:
  assumes "r = direct_re \<or> r = star_re" and "re_search r s = Some g"
  shows "\<exists>t. g 2 = Some t"
proof -
  have "\<exists>t. map_option (\<lambda>g. g 2) (re_search r s) = Some (Some t)"
    using assms re_search_direct[of s] re_search_star[of s]
    by (cases "find (direct_match_at s) [0..<Suc (length s)]";
        cases "find (star_match_at s) [0..<Suc (length s)]") auto
  with assms(2) show ?thesis by simp
qed

section \<open>Properties of the resolver\<close>

lemma least_from_find:
  assumes "find P [0..<m] = Some n" and "\<And>k. P k \<Longrightarrow> k < m"
  shows "(LEAST k. P k) = n"
proof (rule Least_equality)
  from find_upt_Some[OF assms(1)] show "P n" by simp
  fix k assume "P k"
  with find_upt_Some[OF assms(1)] show "n \<le> k" by (meson not_le_imp_less)
qed

text \<open>
  C4, as the code has it. A reference that holds a delimited token of four uppercase
  letters and eight digits resolves to such a token, the one at the least offset
  (\<^verbatim>\<open>re.search\<close> reports the leftmost match), whatever surrounds it; the world is left
  as it was, so nothing is fetched and no other strategy runs. Where no delimited token
  stands before the given one, the result is the given token.
\<close>

theorem direct_token_returned:
  assumes "direct_at s n"
  shows "get_program_id env s w = (Inr (PStr (take 12 (drop (LEAST m. direct_at s m) s))), w)
         \<and> ((\<forall>k<n. \<not> direct_at s k) \<longrightarrow>
              get_program_id env s w = (Inr (PStr (take 12 (drop n s))), w))"
proof -
  from re_search_direct_least[OF assms] obtain g where
    "re_search direct_re s = Some g" "g 2 = Some (take 12 (drop (LEAST m. direct_at s m) s))"
    by blast
  then have 1: "get_program_id env s w =
      (Inr (PStr (take 12 (drop (LEAST m. direct_at s m) s))), w)"
    by (simp add: get_program_id_def group_def io_return_def)
  have "(LEAST m. direct_at s m) = n" if a: "\<forall>k<n. \<not> direct_at s k"
  proof (rule Least_equality)
    show "direct_at s n" by (rule assms)
    fix k assume "direct_at s k"
    with a show "n \<le> k" by (meson not_le_imp_less)
  qed
  with 1 show ?thesis by simp
qed

theorem direct_token_returned_witness:
  "direct_at direct_ref 26
   \<and> get_program_id offline direct_ref w0 = (Inr (PStr ''ABCD12345678''), w0)"
proof -
  have h: "direct_at direct_ref 26" by code_simp
  have f: "find (direct_at direct_ref) [0..<Suc (length direct_ref)] = Some 26" by code_simp
  have b: "k < Suc (length direct_ref)" if "direct_at direct_ref k" for k
    using direct_at_bound[OF direct_at_match[OF that]] .
  have l: "(LEAST m. direct_at direct_ref m) = 26"
    using least_from_find[OF f b] by simp
  have t: "take 12 (drop 26 direct_ref) = ''ABCD12345678''" by code_simp
  from direct_token_returned[OF h, of offline w0] show ?thesis
    unfolding l t using h by simp
qed

text \<open>
  The claim C4 as stated fails for a token that is not the leftmost one: in the reference
  \<^verbatim>\<open>ABCD12345678/EFGH12345678\<close> the twelve characters at offset 13 are a delimited token,
  and the result is the token at offset 0, not that one.
\<close>

theorem later_token_not_returned:
  "direct_at ''ABCD12345678/EFGH12345678'' 13
   \<and> take 12 (drop 13 ''ABCD12345678/EFGH12345678'') = ''EFGH12345678''
   \<and> get_program_id offline ''ABCD12345678/EFGH12345678'' w0
       = (Inr (PStr ''ABCD12345678''), w0)
   \<and> get_program_id offline ''ABCD12345678/EFGH12345678'' w0
       \<noteq> (Inr (PStr ''EFGH12345678''), w0)"
  by (intro conjI; code_simp)

text \<open>
  C1, as the code has it. A reference that holds a delimited token \<^verbatim>\<open>PS*\<close> followed by
  hexadecimal-or-hyphen characters, and that the direct pattern does not match, resolves to
  the characters after \<^verbatim>\<open>PS*\<close> of the token at the least offset: group 2 of the pattern
  stands after the prefix, so the prefix is not part of the result. Nothing is fetched.
\<close>

theorem star_token_returned:
  assumes "star_at s n" and "re_search direct_re s = None"
  shows "get_program_id env s w = (Inr (PStr (star_run s (LEAST m. star_at s m))), w)"
proof -
  from re_search_star_least[OF assms(1)] obtain g where
    "re_search star_re s = Some g" "g 2 = Some (star_run s (LEAST m. star_at s m))"
    by blast
  with assms(2) show ?thesis
    by (simp add: get_program_id_def group_def io_return_def)
qed

theorem star_token_returned_witness:
  "star_at star_ref 31 \<and> re_search direct_re star_ref = None
   \<and> get_program_id offline star_ref w0 = (Inr (PStr ''1a2b-3c''), w0)"
proof -
  have h: "star_at star_ref 31" by code_simp
  have d: "re_search direct_re star_ref = None" by code_simp
  have f: "find (star_at star_ref) [0..<Suc (length star_ref)] = Some 31" by code_simp
  have b: "k < Suc (length star_ref)" if "star_at star_ref k" for k
    using star_match_bound[OF star_at_match[OF that]] .
  have l: "(LEAST m. star_at star_ref m) = 31"
    using least_from_find[OF f b] by simp
  have t: "star_run star_ref 31 = ''1a2b-3c''" by code_simp
  from star_token_returned[OF h d, of offline w0] show ?thesis
    unfolding l t using h d by simp
qed

text \<open>
  The claim C1 as stated fails: the reference \<^verbatim>\<open>PS*1a2b-3c\<close> is a star-form token, the
  direct pattern does not match it, and the result is \<^verbatim>\<open>1a2b-3c\<close>, not the token with its
  prefix.
\<close>

theorem star_prefix_dropped:
  "star_at ''PS*1a2b-3c'' 0 \<and> re_search direct_re ''PS*1a2b-3c'' = None
   \<and> get_program_id offline ''PS*1a2b-3c'' w0 = (Inr (PStr ''1a2b-3c''), w0)
   \<and> get_program_id offline ''PS*1a2b-3c'' w0 \<noteq> (Inr (PStr ''PS*1a2b-3c''), w0)"
  by (intro conjI; code_simp)

text \<open>
  C10. For a reference that the direct pattern or the star pattern matches, the result is
  one identifier, the same for every environment and every world, and the world is
  returned unchanged: no call of \<^verbatim>\<open>requests.get\<close> is made and nothing is printed.
\<close>

theorem pattern_match_no_fetch:
  assumes "(\<exists>m. re_search direct_re s = Some m) \<or> (\<exists>m. re_search star_re s = Some m)"
  shows "\<exists>t. \<forall>env w. get_program_id env s w = (Inr (PStr t), w)"
proof (cases "re_search direct_re s")
  case (Some g)
  from re_search_group2[OF _ Some] obtain t where "g 2 = Some t" by auto
  with Some show ?thesis
    by (auto simp add: get_program_id_def group_def io_return_def)
next
  case None
  with assms obtain g where g: "re_search star_re s = Some g" by auto
  from re_search_group2[OF _ g] obtain t where "g 2 = Some t" by auto
  with None g show ?thesis
    by (auto simp add: get_program_id_def group_def io_return_def)
qed

theorem pattern_match_no_fetch_witness:
  "(\<exists>m. re_search star_re star_ref = Some m)
   \<and> (\<forall>env w. get_program_id env star_ref w = (Inr (PStr ''1a2b-3c''), w))"
proof -
  have "re_search star_re star_ref \<noteq> None" by code_simp
  then have h: "\<exists>m. re_search star_re star_ref = Some m" by auto
  then have "(\<exists>m. re_search direct_re star_ref = Some m) \<or> (\<exists>m. re_search star_re star_ref = Some m)"
    by simp
  from pattern_match_no_fetch[OF this] obtain t where
    t: "\<And>env w. get_program_id env star_ref w = (Inr (PStr t), w)" by blast
  have "get_program_id offline star_ref w0 = (Inr (PStr ''1a2b-3c''), w0)" by code_simp
  with t[of offline w0] have "t = ''1a2b-3c''" by simp
  with t h show ?thesis by simp
qed

section \<open>Properties of the fetcher\<close>

lemma get_req_missing_schema:
  "requests_get env w url hdrs = RaisesMissingSchema msg \<Longrightarrow>
   get_req env url hdrs w = (Inl (NameError ''session''), w\<lparr>get_calls := get_calls w @ [url]\<rparr>)"
  by (simp add: get_req_def io_raise_def)

lemma get_req_returns:
  "requests_get env w url hdrs = Returns req \<Longrightarrow>
   get_req env url hdrs w = (Inr (Some req), w\<lparr>get_calls := get_calls w @ [url]\<rparr>)"
  by (simp add: get_req_def io_return_def)

lemma get_req_request_exception:
  "requests_get env w url hdrs = RaisesRequestException msg \<Longrightarrow>
   get_req env url hdrs w =
     (Inr None, w\<lparr>get_calls := get_calls w @ [url], stdout := stdout w @ [''Error: '' @ msg]\<rparr>)"
  by (simp add: get_req_def io_return_def io_bind_def error_def py_print_def)

text \<open>
  C2, where the code departs from it. On a URL without a scheme \<^verbatim>\<open>requests.get\<close> raises
  \<^verbatim>\<open>MissingSchema\<close>; the handler then raises \<^verbatim>\<open>NameError\<close> for the unbound name
  \<^verbatim>\<open>session\<close>, so no retry with \<^verbatim>\<open>https://\<close> is made and the exception leaves \<^verbatim>\<open>get_req\<close>.
  (The lemmas above are the rest of the claim: a response is returned as it is, and any
  other \<^verbatim>\<open>RequestException\<close> is printed and mapped to \<^verbatim>\<open>None\<close>.)
\<close>

theorem get_req_raises_NameError:
  "get_req offline ''tv.nrk.no/serie/x'' None w0 =
     (Inl (NameError ''session''), \<lparr>stdout = [], get_calls = [''tv.nrk.no/serie/x''], files = []\<rparr>)"
  by code_simp

section \<open>Properties of the lookup strategies\<close>

lemma media_id_no_response:
  assumes "get_req env (MIMIR_BASE_URL (py_format env media_id)) None w = (Inr req, w')"
    and "req = None \<or> (\<exists>r. req = Some r \<and> \<not> resp_ok r)"
  shows "get_program_id_from_media_id env media_id w = (Inr PNone, w')"
  using assms by (auto simp: get_program_id_from_media_id_def io_bind_def io_return_def)

lemma media_id_missing_field:
  assumes "get_req env (MIMIR_BASE_URL (py_format env media_id)) None w = (Inr (Some r), w')"
    and "resp_ok r"
    and "first_tag ''script'' (BeautifulSoup env (resp_text r)) = Some script"
    and "json_loads env (get_text script) = Some (PDict kvs)"
    and "map_of kvs ''activeMedia'' = None
         \<or> (\<exists>kvs'. map_of kvs ''activeMedia'' = Some (PDict kvs') \<and> map_of kvs' ''psId'' = None)"
  shows "get_program_id_from_media_id env media_id w = (Inr PNone, w')"
  using assms by (auto simp: get_program_id_from_media_id_def io_bind_def io_return_def)

text \<open>
  C3, where the code departs from it. When the lookup page has no script element,
  \<^verbatim>\<open>get_program_id_from_media_id\<close> raises \<^verbatim>\<open>AttributeError\<close> instead of yielding no
  identifier. (The two lemmas above are the other two cases of the claim, which hold: no
  response, and a JSON object without the nested field, both yield \<^verbatim>\<open>None\<close>.)
\<close>

theorem media_id_no_script_raises:
  "get_program_id_from_media_id lookup_without_script (PStr ''12345'') w0 =
     (Inl (AttributeError ''get_text''),
      \<lparr>stdout = [], get_calls = [''https://mimir.nrk.no/plugin/1.0/static?mediaId=12345''], files = []\<rparr>)"
  by code_simp

lemma html_fallback_none:
  assumes "get_req env url None w = (Inr req, w')"
    and "req = None \<or> (\<exists>r. req = Some r \<and> (\<not> resp_ok r
           \<or> (find_program_info (BeautifulSoup env (resp_text r)) = None
               \<and> first_tag ''figure'' (BeautifulSoup env (resp_text r)) = None)))"
  shows "get_program_id_from_html env url w = (Inr PNone, w')"
  using assms by (auto simp: get_program_id_from_html_def io_bind_def io_return_def)

lemma html_fallback_no_attribute:
  assumes "get_req env url None w = (Inr (Some r), w')" and "resp_ok r"
    and "(case find_program_info (BeautifulSoup env (resp_text r)) of
            Some e \<Rightarrow> Some e | None \<Rightarrow> first_tag ''figure'' (BeautifulSoup env (resp_text r))) = Some e"
    and "tag_get e ''data-ga-from-id'' = PNone" and "tag_get e ''data-video-id'' = PNone"
  shows "get_program_id_from_html env url w = (Inr PNone, w')"
  using assms
  by (auto simp: get_program_id_from_html_def io_bind_def io_return_def py_or_def Let_def
           split: option.splits)

text \<open>
  C8, where the code departs from it. The reference \<^verbatim>\<open>foo\<close> matches none of the three
  patterns and its page cannot be fetched: \<^verbatim>\<open>requests.get\<close> raises \<^verbatim>\<open>MissingSchema\<close>, and
  the defect of \<^verbatim>\<open>get_req\<close> makes the resolver raise \<^verbatim>\<open>NameError\<close> instead of returning
  nothing. (The two lemmas above are the claim where \<^verbatim>\<open>get_req\<close> itself does not raise.)
\<close>

theorem resolver_raises_without_scheme:
  "re_search direct_re ''foo'' = None \<and> re_search star_re ''foo'' = None
   \<and> re_search media_re ''foo'' = None
   \<and> get_program_id offline ''foo'' w0 =
       (Inl (NameError ''session''), \<lparr>stdout = [], get_calls = [''foo''], files = []\<rparr>)"
  by (intro conjI; code_simp)

section \<open>Properties of the subtitle locator\<close>

text \<open>Group 1 of the URI pattern takes part in every match.\<close>

lemma uri_group_1:
  assumes "re_search uri_re s = Some m"
  shows "\<exists>u. m 1 = Some u"
proof -
  from assms obtain start q rest where "search_from uri_re 0 s = Some (start, q, rest, m)"
    by (auto simp: re_search_def)
  from search_from_result[OF this] obtain st where "(q, rest, m) \<in> set (rmatch uri_re st)"
    by blast
  then obtain st1 st2 where "st2 \<in> set (rmatch (Grp 1 (Plus (Cls not_quote))) st1)"
      and "(q, rest, m) \<in> set (rmatch (Lit (CHR 0x22)) st2)"
    unfolding uri_re_def by (auto simp del: rmatch.simps(2,9,11) simp add: rmatch.simps(6))
  then have "snd (snd (q, rest, m)) 1 \<noteq> None"
    using rmatch_keeps_group rmatch_Grp_sets by blast
  then show ?thesis by auto
qed

lemma first_locator_directive:
  "startswith line ''#'' \<Longrightarrow> first_locator (line # lines) = first_locator lines"
  by (cases line) (auto simp: startswith_def)

lemma first_locator_found:
  "list_all (\<lambda>l. startswith l ''#'') pre \<Longrightarrow> \<not> line = [] \<Longrightarrow> \<not> startswith line ''#'' \<Longrightarrow>
   first_locator (pre @ line # post) = Inr (Some line)"
proof (induction pre)
  case Nil
  then show ?case by (cases line) (auto simp: startswith_def)
next
  case (Cons a pre)
  then show ?case by (simp add: first_locator_directive del: first_locator.simps)
qed

lemma first_locator_empty_line:
  "list_all (\<lambda>l. startswith l ''#'') pre \<Longrightarrow> first_locator (pre @ [] # post) = Inl IndexError"
proof (induction pre)
  case Nil
  then show ?case by simp
next
  case (Cons a pre)
  then show ?case by (simp add: first_locator_directive del: first_locator.simps)
qed

text \<open>
  C6, where the code departs from it. In a sub-manifest whose first line that does not
  start with \<^verbatim>\<open>#\<close> is empty, \<^verbatim>\<open>line[0]\<close> raises \<^verbatim>\<open>IndexError\<close>: no locator is selected
  and nothing is resolved. (The lemmas above give the loop in general: an empty line
  before any locator raises, and a first locator that is not empty is selected.)
\<close>

theorem locator_raises_on_empty_line:
  "get_vtt_file_url (manifests sub_m3u8_blank) ''https://host/path/master.m3u8'' w0 =
     (Inl IndexError,
      \<lparr>stdout = [], get_calls = [''https://host/path/master.m3u8'', ''https://host/path/sub.m3u8''], files = []\<rparr>)"
  by code_simp

lemma locator_example:
  "get_vtt_file_url (manifests sub_m3u8) ''https://host/path/master.m3u8'' w0 =
     (Inr ''https://host/path/seg.vtt'',
      \<lparr>stdout = [], get_calls = [''https://host/path/master.m3u8'', ''https://host/path/sub.m3u8''], files = []\<rparr>)"
  by code_simp

section \<open>Properties of the batch loop\<close>










end
